theory Spec2Isabelle
  imports Complex_Main "HOL-Library.Word"
begin

section \<open>Prewitt edge detection: the embedded program\<close>

text \<open>
  The development embeds \<^verbatim>\<open>prewitt_operator(img, threshold=40, smooth=True)\<close> of
  \<^verbatim>\<open>Prewitt_Edge_Detector.ipynb\<close>. Conventions of the embedding:

  \<^item> a two-dimensional NumPy array is a record of its shape and its rows (the function
    unpacks \<^verbatim>\<open>img.shape\<close> into two numbers, so it accepts no other arrays); indices are
    Python integers (\<open>int\<close>), bounds-checked against the shape as NumPy does, a negative
    index counting from the end, anything else raising \<^verbatim>\<open>IndexError\<close>;
  \<^item> a sample is a NumPy scalar as the loop body computes with it. Multiplying a sample
    by an entry of the 64-bit integer kernels promotes it: a sample of a signed or of an
    8-, 16- or 32-bit unsigned integer type becomes a 64-bit integer of the same value, a
    sample of a floating-point type a double of the same value. A grid therefore holds
    64-bit integers (\<open>I64\<close>, with wrap-around arithmetic) or doubles (\<open>F64\<close>, with rounded
    arithmetic), and an 8-bit image is a grid of \<open>I64\<close> samples between 0 and 255;
  \<^item> the threshold is a real number: the value of the Python float passed (NumPy converts
    a Python integer to a double before comparing it with a double);
  \<^item> \<^verbatim>\<open>cv2.GaussianBlur\<close> is a library function outside the repository: it is a
    parameter of the model, a function from an array to an error or a new array;
  \<^item> an exception is the \<open>Inl\<close> branch of a sum, a returned value the \<open>Inr\<close> branch;
  \<^item> a \<^verbatim>\<open>for\<close> loop over a \<^verbatim>\<open>range\<close> is a recursion over the list of its indices,
    threading the state the body updates.
\<close>

subsection \<open>Doubles\<close>

text \<open>
  A double is a real number (which the operations below keep among the binary64
  numbers), an infinity or NaN. The sign of a zero is not kept: the function only adds,
  multiplies, squares, takes square roots and compares, and the sign of a zero changes
  none of the values these return here.
\<close>

datatype float64 = Finite real | PlusInf | MinusInf | NaN

text \<open>The nearest integer, a tie going to the even one.\<close>

definition rne :: "real \<Rightarrow> int" where
  "rne y =
     (let f = \<lfloor>y\<rfloor>; r = y - of_int f
      in if r < 1 / 2 then f
         else if 1 / 2 < r then f + 1
         else if even f then f else f + 1)"

text \<open>
  Rounding a real number to binary64, to nearest and ties to even: 53 significant bits,
  the exponent of the last bit not below \<open>-1074\<close>, and overflow to an infinity.
\<close>

definition ulp_exp :: "real \<Rightarrow> int" where
  "ulp_exp x = max \<lfloor>log 2 \<bar>x\<bar>\<rfloor> (- 1022) - 52"

definition round_f :: "real \<Rightarrow> float64" where
  "round_f x =
     (if x = 0 then Finite 0
      else let q = 2 powi ulp_exp x;
               y = of_int (rne (x / q)) * q
           in if 2 ^ 1024 \<le> \<bar>y\<bar> then (if 0 < x then PlusInf else MinusInf)
              else Finite y)"

fun fadd :: "float64 \<Rightarrow> float64 \<Rightarrow> float64" where
  "fadd (Finite a) (Finite b) = round_f (a + b)"
| "fadd NaN y = NaN"
| "fadd x NaN = NaN"
| "fadd PlusInf MinusInf = NaN"
| "fadd MinusInf PlusInf = NaN"
| "fadd PlusInf y = PlusInf"
| "fadd x PlusInf = PlusInf"
| "fadd MinusInf y = MinusInf"
| "fadd x MinusInf = MinusInf"

fun fsign :: "float64 \<Rightarrow> int" where
  "fsign (Finite a) = (if a < 0 then - 1 else if a = 0 then 0 else 1)"
| "fsign PlusInf = 1"
| "fsign MinusInf = - 1"
| "fsign NaN = 0"

fun fmul :: "float64 \<Rightarrow> float64 \<Rightarrow> float64" where
  "fmul (Finite a) (Finite b) = round_f (a * b)"
| "fmul NaN y = NaN"
| "fmul x NaN = NaN"
| "fmul x y =
     (let s = fsign x * fsign y
      in if s = 0 then NaN else if 0 < s then PlusInf else MinusInf)"

fun fsqrt :: "float64 \<Rightarrow> float64" where
  "fsqrt (Finite a) = (if a < 0 then NaN else round_f (sqrt a))"
| "fsqrt PlusInf = PlusInf"
| "fsqrt MinusInf = NaN"
| "fsqrt NaN = NaN"

text \<open>\<^verbatim>\<open>x < t\<close> for a double \<open>x\<close>: every comparison with NaN is false.\<close>

fun flt :: "float64 \<Rightarrow> real \<Rightarrow> bool" where
  "flt (Finite a) t = (a < t)"
| "flt PlusInf t = False"
| "flt MinusInf t = True"
| "flt NaN t = False"

subsection \<open>NumPy scalars\<close>

datatype scalar = I64 "64 word" | F64 float64

text \<open>The conversion of a scalar to a double, as NumPy applies it to an integer operand.\<close>

fun to_float64 :: "scalar \<Rightarrow> float64" where
  "to_float64 (I64 a) = round_f (real_of_int (sint a))"
| "to_float64 (F64 x) = x"

text \<open>
  \<^verbatim>\<open>x + y\<close>, \<^verbatim>\<open>x * y\<close> and \<^verbatim>\<open>x ** 2\<close>: in 64-bit integers, wrapping around, when the
  operands are integers; in doubles otherwise. The square of a double is taken to be the
  correctly rounded one.
\<close>

fun sadd :: "scalar \<Rightarrow> scalar \<Rightarrow> scalar" where
  "sadd (I64 a) (I64 b) = I64 (a + b)"
| "sadd x y = F64 (fadd (to_float64 x) (to_float64 y))"

fun smul :: "scalar \<Rightarrow> scalar \<Rightarrow> scalar" where
  "smul (I64 a) (I64 b) = I64 (a * b)"
| "smul x y = F64 (fmul (to_float64 x) (to_float64 y))"

fun spow2 :: "scalar \<Rightarrow> scalar" where
  "spow2 (I64 a) = I64 (a * a)"
| "spow2 (F64 x) = F64 (fmul x x)"

text \<open>\<^verbatim>\<open>np.sqrt\<close>: the argument as a double, then the correctly rounded square root.\<close>

definition np_sqrt :: "scalar \<Rightarrow> float64" where
  "np_sqrt x = fsqrt (to_float64 x)"

subsection \<open>Arrays\<close>

datatype error = IndexError | Cv2Error

record ndarray =
  nrows :: nat
  ncols :: nat
  cells :: "scalar list list"

text \<open>\<^verbatim>\<open>np.zeros((rows, cols))\<close>, an array of doubles.\<close>

definition np_zeros :: "nat \<Rightarrow> nat \<Rightarrow> ndarray" where
  "np_zeros rows cols =
     \<lparr>nrows = rows, ncols = cols, cells = replicate rows (replicate cols (F64 (Finite 0)))\<rparr>"

text \<open>One index of \<^verbatim>\<open>a[i, j]\<close> against an axis of length \<open>n\<close>.\<close>

definition norm_index :: "nat \<Rightarrow> int \<Rightarrow> error + nat" where
  "norm_index n k =
     (if 0 \<le> k \<and> k < int n then Inr (nat k)
      else if - int n \<le> k \<and> k < 0 then Inr (nat (k + int n))
      else Inl IndexError)"

text \<open>Reading \<^verbatim>\<open>a[i, j]\<close> and writing \<^verbatim>\<open>a[i, j] = v\<close>.\<close>

definition getitem :: "ndarray \<Rightarrow> int \<Rightarrow> int \<Rightarrow> error + scalar" where
  "getitem a i j =
     (case norm_index (nrows a) i of
        Inl e \<Rightarrow> Inl e
      | Inr r \<Rightarrow>
          (case norm_index (ncols a) j of
             Inl e \<Rightarrow> Inl e
           | Inr c \<Rightarrow> Inr (cells a ! r ! c)))"

definition setitem :: "ndarray \<Rightarrow> int \<Rightarrow> int \<Rightarrow> scalar \<Rightarrow> error + ndarray" where
  "setitem a i j v =
     (case norm_index (nrows a) i of
        Inl e \<Rightarrow> Inl e
      | Inr r \<Rightarrow>
          (case norm_index (ncols a) j of
             Inl e \<Rightarrow> Inl e
           | Inr c \<Rightarrow> Inr (a\<lparr>cells := (cells a)[r := (cells a ! r)[c := v]]\<rparr>)))"

text \<open>
  The product \<^verbatim>\<open>img[..] * prewitt_x[..]\<close> and the sum of two such terms, where reading the
  image may have raised; the left operand is evaluated first.
\<close>

definition mul_r :: "error + scalar \<Rightarrow> scalar \<Rightarrow> error + scalar" where
  "mul_r x k = (case x of Inl e \<Rightarrow> Inl e | Inr a \<Rightarrow> Inr (smul a k))"

definition add_r :: "error + scalar \<Rightarrow> error + scalar \<Rightarrow> error + scalar" where
  "add_r x y =
     (case x of
        Inl e \<Rightarrow> Inl e
      | Inr a \<Rightarrow> (case y of Inl e \<Rightarrow> Inl e | Inr b \<Rightarrow> Inr (sadd a b)))"

subsection \<open>Loops\<close>

text \<open>\<^verbatim>\<open>range(lo, hi)\<close>: the integers from \<open>lo\<close> up to \<open>hi - 1\<close>, none when \<open>hi \<le> lo\<close>.\<close>

definition py_range :: "int \<Rightarrow> int \<Rightarrow> int list" where
  "py_range lo hi = [lo..hi - 1]"

text \<open>\<^verbatim>\<open>for k in ks: body\<close>, stopping at the first exception.\<close>

fun for_loop :: "int list \<Rightarrow> (int \<Rightarrow> 's \<Rightarrow> error + 's) \<Rightarrow> 's \<Rightarrow> error + 's" where
  "for_loop [] body s = Inr s"
| "for_loop (k # ks) body s =
     (case body k s of Inl e \<Rightarrow> Inl e | Inr s' \<Rightarrow> for_loop ks body s')"

subsection \<open>The operator\<close>

text \<open>The kernels, arrays of 64-bit integers.\<close>

definition prewitt_x :: "scalar list list" where
  "prewitt_x = [[I64 1, I64 0, I64 (- 1)],
                [I64 1, I64 0, I64 (- 1)],
                [I64 1, I64 0, I64 (- 1)]]"

definition prewitt_y :: "scalar list list" where
  "prewitt_y = [[I64 1, I64 1, I64 1],
                [I64 0, I64 0, I64 0],
                [I64 (- 1), I64 (- 1), I64 (- 1)]]"

text \<open>The nine-term sums of the loop body, term for term in the order of the source.\<close>

definition G_x :: "ndarray \<Rightarrow> int \<Rightarrow> int \<Rightarrow> error + scalar" where
  "G_x img i j =
     add_r (add_r (add_r (add_r (add_r (add_r (add_r (add_r
       (mul_r (getitem img (i - 1) (j - 1)) (prewitt_x ! 0 ! 0))
       (mul_r (getitem img i (j - 1)) (prewitt_x ! 0 ! 1)))
       (mul_r (getitem img (i + 1) (j - 1)) (prewitt_x ! 0 ! 2)))
       (mul_r (getitem img (i - 1) j) (prewitt_x ! 1 ! 0)))
       (mul_r (getitem img i j) (prewitt_x ! 1 ! 1)))
       (mul_r (getitem img (i + 1) j) (prewitt_x ! 1 ! 2)))
       (mul_r (getitem img (i - 1) (j + 1)) (prewitt_x ! 2 ! 0)))
       (mul_r (getitem img i (j + 1)) (prewitt_x ! 2 ! 1)))
       (mul_r (getitem img (i + 1) (j + 1)) (prewitt_x ! 2 ! 2))"

definition G_y :: "ndarray \<Rightarrow> int \<Rightarrow> int \<Rightarrow> error + scalar" where
  "G_y img i j =
     add_r (add_r (add_r (add_r (add_r (add_r (add_r (add_r
       (mul_r (getitem img (i - 1) (j - 1)) (prewitt_y ! 0 ! 0))
       (mul_r (getitem img i (j - 1)) (prewitt_y ! 0 ! 1)))
       (mul_r (getitem img (i + 1) (j - 1)) (prewitt_y ! 0 ! 2)))
       (mul_r (getitem img (i - 1) j) (prewitt_y ! 1 ! 0)))
       (mul_r (getitem img i j) (prewitt_y ! 1 ! 1)))
       (mul_r (getitem img (i + 1) j) (prewitt_y ! 1 ! 2)))
       (mul_r (getitem img (i - 1) (j + 1)) (prewitt_y ! 2 ! 0)))
       (mul_r (getitem img i (j + 1)) (prewitt_y ! 2 ! 1)))
       (mul_r (getitem img (i + 1) (j + 1)) (prewitt_y ! 2 ! 2))"

text \<open>\<^verbatim>\<open>G_mag = np.sqrt(G_x ** 2 + G_y ** 2)\<close>, a double.\<close>

definition G_mag :: "ndarray \<Rightarrow> int \<Rightarrow> int \<Rightarrow> error + float64" where
  "G_mag img i j =
     (case G_x img i j of
        Inl e \<Rightarrow> Inl e
      | Inr gx \<Rightarrow>
          (case G_y img i j of
             Inl e \<Rightarrow> Inl e
           | Inr gy \<Rightarrow> Inr (np_sqrt (sadd (spow2 gx) (spow2 gy)))))"

text \<open>
  The body of the inner loop: the magnitude at \<open>(i, j)\<close>, \<^verbatim>\<open>if G_mag < threshold: G_mag = 0\<close>,
  and \<^verbatim>\<open>edge_img[i, j] = G_mag\<close>, which stores a double in the array of doubles.
\<close>

definition pixel_body :: "ndarray \<Rightarrow> real \<Rightarrow> int \<Rightarrow> int \<Rightarrow> ndarray \<Rightarrow> error + ndarray" where
  "pixel_body img threshold i j edge_img =
     (case G_mag img i j of
        Inl e \<Rightarrow> Inl e
      | Inr g \<Rightarrow> setitem edge_img i j (F64 (if flt g threshold then Finite 0 else g)))"

text \<open>
  The function, with the arrays passed by value and \<open>edge_img\<close> threaded through both
  loops. The shape and the blank image are taken from the argument before smoothing;
  the loops read the smoothed image when \<open>smooth\<close> holds.
\<close>

definition prewitt_operator ::
    "(ndarray \<Rightarrow> error + ndarray) \<Rightarrow> ndarray \<Rightarrow> real \<Rightarrow> bool \<Rightarrow> error + ndarray" where
  "prewitt_operator GaussianBlur img threshold smooth =
     (let rows = int (nrows img);
          cols = int (ncols img);
          edge_img = np_zeros (nrows img) (ncols img)
      in case (if smooth then GaussianBlur img else Inr img) of
           Inl e \<Rightarrow> Inl e
         | Inr img' \<Rightarrow>
             for_loop (py_range 1 (rows - 1))
               (\<lambda>i. for_loop (py_range 1 (cols - 1)) (\<lambda>j. pixel_body img' threshold i j))
               edge_img)"

subsection \<open>The same function over an object store\<close>

text \<open>
  To speak about which arrays a call writes, the arrays live in a store: a list of
  objects, a reference being a position in it. Allocation appends; the caller's \<open>img\<close> is
  a reference, \<^verbatim>\<open>np.zeros\<close> and \<^verbatim>\<open>cv2.GaussianBlur\<close> (called without a destination) return
  references to new objects, and \<^verbatim>\<open>edge_img[i, j] = G_mag\<close> overwrites the object
  \<open>edge_img\<close> refers to. Every read goes through the store as it is at that moment.
\<close>

type_synonym ref = nat
type_synonym store = "ndarray list"

definition alloc :: "ndarray \<Rightarrow> store \<Rightarrow> ref \<times> store" where
  "alloc a h = (length h, h @ [a])"

definition np_zeros_st :: "nat \<Rightarrow> nat \<Rightarrow> store \<Rightarrow> ref \<times> store" where
  "np_zeros_st rows cols h = alloc (np_zeros rows cols) h"

definition GaussianBlur_st ::
    "(ndarray \<Rightarrow> error + ndarray) \<Rightarrow> ref \<Rightarrow> store \<Rightarrow> error + ref \<times> store" where
  "GaussianBlur_st GaussianBlur p h =
     (case GaussianBlur (h ! p) of Inl e \<Rightarrow> Inl e | Inr b \<Rightarrow> Inr (alloc b h))"

definition setitem_st :: "ref \<Rightarrow> int \<Rightarrow> int \<Rightarrow> scalar \<Rightarrow> store \<Rightarrow> error + store" where
  "setitem_st p i j v h =
     (case setitem (h ! p) i j v of Inl e \<Rightarrow> Inl e | Inr a \<Rightarrow> Inr (h[p := a]))"

definition pixel_body_st :: "ref \<Rightarrow> ref \<Rightarrow> real \<Rightarrow> int \<Rightarrow> int \<Rightarrow> store \<Rightarrow> error + store" where
  "pixel_body_st img edge_img threshold i j h =
     (case G_mag (h ! img) i j of
        Inl e \<Rightarrow> Inl e
      | Inr g \<Rightarrow> setitem_st edge_img i j (F64 (if flt g threshold then Finite 0 else g)) h)"

definition prewitt_operator_st ::
    "(ndarray \<Rightarrow> error + ndarray) \<Rightarrow> ref \<Rightarrow> real \<Rightarrow> bool \<Rightarrow> store \<Rightarrow> error + ref \<times> store" where
  "prewitt_operator_st GaussianBlur img threshold smooth h =
     (let rows = int (nrows (h ! img));
          cols = int (ncols (h ! img));
          (edge_img, h1) = np_zeros_st (nrows (h ! img)) (ncols (h ! img)) h
      in case (if smooth then GaussianBlur_st GaussianBlur img h1 else Inr (img, h1)) of
           Inl e \<Rightarrow> Inl e
         | Inr (img', h2) \<Rightarrow>
             (case for_loop (py_range 1 (rows - 1))
                     (\<lambda>i. for_loop (py_range 1 (cols - 1))
                        (\<lambda>j. pixel_body_st img' edge_img threshold i j))
                     h2 of
                Inl e \<Rightarrow> Inl e
              | Inr h3 \<Rightarrow> Inr (edge_img, h3)))"

section \<open>Vocabulary of the specification\<close>

text \<open>The sample at row \<open>i\<close>, column \<open>j\<close> of a grid, for indices inside it.\<close>

definition cell :: "ndarray \<Rightarrow> int \<Rightarrow> int \<Rightarrow> scalar" where
  "cell a i j = cells a ! nat i ! nat j"

text \<open>A grid whose rows are as many and as long as its shape says.\<close>

definition wf_ndarray :: "ndarray \<Rightarrow> bool" where
  "wf_ndarray a \<longleftrightarrow> length (cells a) = nrows a \<and> list_all (\<lambda>row. length row = ncols a) (cells a)"

text \<open>
  Grids of integer samples, and those whose samples are at most \<open>2\<^sup>2\<^sup>3\<close> in magnitude
  (every image of 8-bit or 16-bit samples is one).
\<close>

fun is_int :: "scalar \<Rightarrow> bool" where
  "is_int (I64 a) = True"
| "is_int (F64 x) = False"

fun small_int :: "scalar \<Rightarrow> bool" where
  "small_int (I64 a) = (\<bar>sint a\<bar> \<le> 2 ^ 23)"
| "small_int (F64 x) = False"

definition int_grid :: "ndarray \<Rightarrow> bool" where
  "int_grid a \<longleftrightarrow> wf_ndarray a \<and> list_all (list_all is_int) (cells a)"

definition small_int_grid :: "ndarray \<Rightarrow> bool" where
  "small_int_grid a \<longleftrightarrow> wf_ndarray a \<and> list_all (list_all small_int) (cells a)"

text \<open>The number a scalar stands for.\<close>

fun sample :: "scalar \<Rightarrow> real" where
  "sample (I64 a) = real_of_int (sint a)"
| "sample (F64 (Finite r)) = r"
| "sample (F64 x) = 0"

text \<open>
  The specification's convolution, as a sum of real numbers:
  \<open>\<Sum> K[u][v] * input[i-1+u][j-1+v]\<close> for \<open>u, v \<in> {0, 1, 2}\<close>; and its
  \<open>Gmag = sqrt(Gx\<^sup>2 + Gy\<^sup>2)\<close>.
\<close>

definition spec_conv3 :: "scalar list list \<Rightarrow> ndarray \<Rightarrow> int \<Rightarrow> int \<Rightarrow> real" where
  "spec_conv3 K img i j =
     (\<Sum>u\<leftarrow>[0..<3]. \<Sum>v\<leftarrow>[0..<3].
        sample (K ! u ! v) * sample (cell img (i - 1 + int u) (j - 1 + int v)))"

definition spec_Gmag :: "ndarray \<Rightarrow> int \<Rightarrow> int \<Rightarrow> real" where
  "spec_Gmag img i j = sqrt ((spec_conv3 prewitt_x img i j) ^ 2 + (spec_conv3 prewitt_y img i j) ^ 2)"

text \<open>
  The same convolution computed with NumPy scalars, the nine products added from left to
  right in row-major order; and the sum with the neighbourhood transposed, kernel entry
  \<open>(u, v)\<close> against \<open>input[i-1+v][j-1+u]\<close>.
\<close>

fun sum_left :: "scalar list \<Rightarrow> scalar" where
  "sum_left [] = I64 0"
| "sum_left (x # xs) = foldl sadd x xs"

definition rowmajor_conv3 :: "scalar list list \<Rightarrow> ndarray \<Rightarrow> int \<Rightarrow> int \<Rightarrow> scalar" where
  "rowmajor_conv3 K img i j =
     sum_left (concat (map (\<lambda>u. map (\<lambda>v.
        smul (K ! u ! v) (cell img (i - 1 + int u) (j - 1 + int v))) [0..<3]) [0..<3]))"

definition transposed_conv3 :: "scalar list list \<Rightarrow> ndarray \<Rightarrow> int \<Rightarrow> int \<Rightarrow> scalar" where
  "transposed_conv3 K img i j =
     sum_left (concat (map (\<lambda>u. map (\<lambda>v.
        smul (cell img (i - 1 + int v) (j - 1 + int u)) (K ! u ! v)) [0..<3]) [0..<3]))"

text \<open>Interior positions: \<open>1 \<le> i \<le> rows - 2\<close> and \<open>1 \<le> j \<le> cols - 2\<close>.\<close>

definition interior :: "ndarray \<Rightarrow> int \<Rightarrow> int \<Rightarrow> bool" where
  "interior a i j \<longleftrightarrow>
     1 \<le> i \<and> i \<le> int (nrows a) - 2 \<and> 1 \<le> j \<and> j \<le> int (ncols a) - 2"

text \<open>Positions of the grid, and those on its one-pixel border.\<close>

definition in_grid :: "ndarray \<Rightarrow> int \<Rightarrow> int \<Rightarrow> bool" where
  "in_grid a i j \<longleftrightarrow> 0 \<le> i \<and> i < int (nrows a) \<and> 0 \<le> j \<and> j < int (ncols a)"

definition border :: "ndarray \<Rightarrow> int \<Rightarrow> int \<Rightarrow> bool" where
  "border a i j \<longleftrightarrow>
     in_grid a i j \<and>
     (i = 0 \<or> i = int (nrows a) - 1 \<or> j = 0 \<or> j = int (ncols a) - 1)"

text \<open>A grid all of whose samples are \<open>c\<close>.\<close>

definition uniform :: "ndarray \<Rightarrow> scalar \<Rightarrow> bool" where
  "uniform a c \<longleftrightarrow> list_all (list_all (\<lambda>x. x = c)) (cells a)"

text \<open>
  What the theorems ask of the library when smoothing is on: the blur returns, and its
  result has the shape of its argument (OpenCV documents the destination as of the same
  size and type as the source). Nothing is asked when smoothing is off.
\<close>

definition smoothing_ok :: "(ndarray \<Rightarrow> error + ndarray) \<Rightarrow> ndarray \<Rightarrow> bool \<Rightarrow> bool" where
  "smoothing_ok GaussianBlur img smooth =
     (if smooth
      then (case GaussianBlur img of
              Inl e \<Rightarrow> False
            | Inr b \<Rightarrow> nrows b = nrows img \<and> ncols b = ncols img)
      else True)"

text \<open>The image the loops read: the blurred one when smoothing is on and the blur returns.\<close>

definition loop_image :: "(ndarray \<Rightarrow> error + ndarray) \<Rightarrow> ndarray \<Rightarrow> bool \<Rightarrow> ndarray" where
  "loop_image GaussianBlur img smooth =
     (if smooth then (case GaussianBlur img of Inl e \<Rightarrow> img | Inr b \<Rightarrow> b) else img)"

text \<open>
  The double the loop body computes at an interior position, and the scalar it stores
  there.
\<close>

definition magnitude :: "ndarray \<Rightarrow> int \<Rightarrow> int \<Rightarrow> float64" where
  "magnitude src i j =
     np_sqrt (sadd (spow2 (transposed_conv3 prewitt_x src i j))
                   (spow2 (transposed_conv3 prewitt_y src i j)))"

definition edge_pixel :: "ndarray \<Rightarrow> real \<Rightarrow> int \<Rightarrow> int \<Rightarrow> scalar" where
  "edge_pixel src t i j = F64 (if flt (magnitude src i j) t then Finite 0 else magnitude src i j)"

text \<open>A grid given by a function of the position, and the edge map in that form.\<close>

definition tabulate :: "nat \<Rightarrow> nat \<Rightarrow> (int \<Rightarrow> int \<Rightarrow> scalar) \<Rightarrow> ndarray" where
  "tabulate R C f =
     \<lparr>nrows = R, ncols = C,
      cells = map (\<lambda>r. map (\<lambda>c. f (int r) (int c)) [0..<C]) [0..<R]\<rparr>"

definition edge_map :: "ndarray \<Rightarrow> real \<Rightarrow> ndarray" where
  "edge_map src t =
     tabulate (nrows src) (ncols src)
       (\<lambda>a b. if interior src a b then edge_pixel src t a b else F64 (Finite 0))"

text \<open>Doubles that are not below zero: the values a square root can return.\<close>

fun nonneg_f :: "float64 \<Rightarrow> bool" where
  "nonneg_f (Finite a) = (0 \<le> a)"
| "nonneg_f PlusInf = True"
| "nonneg_f MinusInf = False"
| "nonneg_f NaN = True"

subsection \<open>Concrete inputs\<close>

text \<open>
  Grids of integer samples: a 3 by 3 image whose centre has row-major gradients 3 and 4
  (magnitude 5), a flat image, a 2 by 2 image, and an image of 64-bit samples whose first
  row is \<open>2\<^sup>3\<^sup>2\<close>, and an image with a single 1 in its corner, beside the double nearest
  to the square root of 2. A flat image of doubles, each the double nearest to one tenth.
  And a stand-in for the blur, which halves every sample.
\<close>

definition img345 :: ndarray where
  "img345 = \<lparr>nrows = 3, ncols = 3,
     cells = [[I64 4, I64 0, I64 0], [I64 0, I64 0, I64 1], [I64 0, I64 0, I64 0]]\<rparr>"

definition flat7 :: ndarray where
  "flat7 = \<lparr>nrows = 3, ncols = 3,
     cells = [[I64 7, I64 7, I64 7], [I64 7, I64 7, I64 7], [I64 7, I64 7, I64 7]]\<rparr>"

definition img2x2 :: ndarray where
  "img2x2 = \<lparr>nrows = 2, ncols = 2, cells = [[I64 1, I64 2], [I64 3, I64 4]]\<rparr>"

definition img_2p32 :: ndarray where
  "img_2p32 = \<lparr>nrows = 3, ncols = 3,
     cells = [[I64 4294967296, I64 4294967296, I64 4294967296],
              [I64 0, I64 0, I64 0],
              [I64 0, I64 0, I64 0]]\<rparr>"

definition img_unit :: ndarray where
  "img_unit = \<lparr>nrows = 3, ncols = 3,
     cells = [[I64 1, I64 0, I64 0], [I64 0, I64 0, I64 0], [I64 0, I64 0, I64 0]]\<rparr>"

definition sqrt2_double :: real where
  "sqrt2_double = 6369051672525773 / 2 ^ 52"

definition tenth :: scalar where
  "tenth = F64 (Finite (3602879701896397 / 2 ^ 55))"

definition flat_tenth :: ndarray where
  "flat_tenth = \<lparr>nrows = 3, ncols = 3,
     cells = [[tenth, tenth, tenth], [tenth, tenth, tenth], [tenth, tenth, tenth]]\<rparr>"

fun halve_scalar :: "scalar \<Rightarrow> scalar" where
  "halve_scalar (I64 a) = I64 (a div 2)"
| "halve_scalar (F64 x) = F64 (fmul x (Finite (1 / 2)))"

definition halve :: "ndarray \<Rightarrow> error + ndarray" where
  "halve a = Inr (a\<lparr>cells := map (map halve_scalar) (cells a)\<rparr>)"

section \<open>Properties of the embedding\<close>

subsection \<open>Rounding\<close>

lemma rne_of_int [simp]: "rne (of_int z) = z"
  by (simp add: rne_def)

lemma rne_nonneg: "0 \<le> y \<Longrightarrow> 0 \<le> rne y"
  by (auto simp: rne_def Let_def)

lemma floor_log2_less:
  assumes "x \<noteq> 0" "\<bar>x\<bar> < 2 powi k"
  shows "\<lfloor>log 2 \<bar>x\<bar>\<rfloor> < k"
proof -
  have "(2::real) powi k = 2 powr (of_int k)"
    using powr_real_of_int' [of 2 k] by simp
  with assms have "log 2 \<bar>x\<bar> < of_int k"
    by (simp add: log_less_iff)
  then show ?thesis
    by (simp add: floor_less_iff)
qed

lemma floor_log2_eq:
  assumes "2 powi k \<le> \<bar>x\<bar>" "\<bar>x\<bar> < 2 powi (k + 1)"
  shows "\<lfloor>log 2 \<bar>x\<bar>\<rfloor> = k"
proof -
  have pos: "0 < \<bar>x\<bar>"
    using assms(1) zero_less_power_int [of "2::real" k] by linarith
  have "(2::real) powi k = 2 powr (of_int k)" "(2::real) powi (k + 1) = 2 powr (of_int (k + 1))"
    using powr_real_of_int' [of 2 k] powr_real_of_int' [of 2 "k + 1"] by simp_all
  with assms pos have "of_int k \<le> log 2 \<bar>x\<bar>" "log 2 \<bar>x\<bar> < of_int (k + 1)"
    by (simp_all add: le_log_iff log_less_iff del: of_int_add)
  then show ?thesis
    by (simp add: floor_eq_iff)
qed

lemma round_f_exact:
  assumes x: "x = of_int m * 2 powi e" and m: "\<bar>m\<bar> < 2 ^ 53" and e: "- 1074 \<le> e"
    and fin: "\<bar>x\<bar> < 2 ^ 1024"
  shows "round_f x = Finite x"
proof (cases "x = 0")
  case True
  then show ?thesis by (simp add: round_f_def)
next
  case False
  define u where "u = ulp_exp x"
  have "\<bar>x\<bar> = of_int \<bar>m\<bar> * 2 powi e"
    by (simp add: x abs_mult)
  also have "\<dots> < 2 ^ 53 * 2 powi e"
  proof -
    have "real_of_int \<bar>m\<bar> < 2 ^ 53"
      using m by (metis of_int_less_iff of_int_numeral of_int_power)
    then show ?thesis
      by (simp add: mult_strict_right_mono)
  qed
  also have "\<dots> = 2 powi (e + 53)"
    by (simp add: power_int_add)
  finally have "\<lfloor>log 2 \<bar>x\<bar>\<rfloor> < e + 53"
    using False by (intro floor_log2_less)
  with e have u: "u \<le> e"
    by (simp add: u_def ulp_exp_def)
  define n where "n = nat (e - u)"
  have "(2::real) powi e = 2 powi (e - u) * 2 powi u"
    by (simp add: power_int_add [symmetric])
  also have "(2::real) powi (e - u) = 2 ^ n"
    using u by (simp add: n_def power_int_def)
  finally have split: "(2::real) powi e = 2 ^ n * 2 powi u" .
  have quot: "x / 2 powi u = of_int (m * 2 ^ n)"
    unfolding x split by simp
  have "rne (x / 2 powi u) = m * 2 ^ n"
    by (simp only: quot rne_of_int)
  then have "real_of_int (rne (x / 2 powi u)) * 2 powi u = x"
    unfolding x split by simp
  with False fin show ?thesis
    by (simp add: round_f_def Let_def u_def)
qed

lemma round_f_of_int:
  assumes "\<bar>n\<bar> < 2 ^ 53"
  shows "round_f (of_int n) = Finite (of_int n)"
proof -
  have "\<bar>real_of_int n\<bar> < 2 ^ 53"
    using assms by (metis of_int_abs of_int_less_iff of_int_numeral of_int_power)
  also have "(2::real) ^ 53 \<le> 2 ^ 1024"
    by (intro power_increasing) simp_all
  finally show ?thesis
    using assms by (intro round_f_exact [where m = n and e = 0]) simp_all
qed

lemma round_f_nonneg: "0 \<le> x \<Longrightarrow> nonneg_f (round_f x)"
  by (auto simp: round_f_def Let_def intro!: mult_nonneg_nonneg rne_nonneg)

lemma fsqrt_nonneg: "nonneg_f (fsqrt x)"
  by (cases x) (simp_all add: round_f_nonneg)

lemma np_sqrt_nonneg: "nonneg_f (np_sqrt x)"
  by (simp add: np_sqrt_def fsqrt_nonneg)

lemma nonneg_not_flt: "nonneg_f g \<Longrightarrow> t \<le> 0 \<Longrightarrow> \<not> flt g t"
  by (cases g) auto

lemma round_f_at:
  assumes "2 powi k \<le> \<bar>x\<bar>" "\<bar>x\<bar> < 2 powi (k + 1)" "- 1022 \<le> k"
  shows "round_f x =
     (let y = of_int (rne (x / 2 powi (k - 52))) * 2 powi (k - 52)
      in if 2 ^ 1024 \<le> \<bar>y\<bar> then (if 0 < x then PlusInf else MinusInf) else Finite y)"
proof -
  have "0 < \<bar>x\<bar>"
    using assms(1) zero_less_power_int [of "2::real" k] by linarith
  then have "x \<noteq> 0"
    by simp
  moreover have "ulp_exp x = k - 52"
    using floor_log2_eq [OF assms(1,2)] assms(3) by (simp add: ulp_exp_def)
  ultimately show ?thesis
    by (simp add: round_f_def Let_def)
qed

lemma round_f_dyadic:
  assumes "\<bar>m\<bar> < 2 ^ 53" "n \<le> 1074"
  shows "round_f (of_int m / 2 ^ n) = Finite (of_int m / 2 ^ n)"
proof (rule round_f_exact [where m = m and e = "- int n"])
  show "real_of_int m / 2 ^ n = real_of_int m * 2 powi (- int n)"
    by (simp add: power_int_minus field_simps)
  show "\<bar>m\<bar> < 2 ^ 53" "- 1074 \<le> - int n"
    using assms by simp_all
  have "\<bar>real_of_int m / 2 ^ n\<bar> \<le> \<bar>real_of_int m\<bar>"
    by (simp add: field_simps mult_le_cancel_left1 abs_mult)
  also have "\<dots> < 2 ^ 53"
    using assms(1) by (metis of_int_abs of_int_less_iff of_int_numeral of_int_power)
  also have "(2::real) ^ 53 \<le> 2 ^ 1024"
    by (intro power_increasing) simp_all
  finally show "\<bar>real_of_int m / 2 ^ n\<bar> < 2 ^ 1024" .
qed

lemma round_f_zero [simp]: "round_f 0 = Finite 0"
  by (simp add: round_f_def)

lemma round_f_one [simp]: "round_f 1 = Finite 1"
  using round_f_of_int [of 1] by simp

lemma round_f_minus_one [simp]: "round_f (- 1) = Finite (- 1)"
  using round_f_of_int [of "- 1"] by simp

text \<open>Three times the double nearest to one tenth lies half-way between two doubles.\<close>

lemma round_f_three_tenths:
  "round_f (10808639105689191 / 2 ^ 55) = Finite (5404319552844596 / 2 ^ 54)"
proof -
  have "round_f (10808639105689191 / 2 ^ 55) =
     (let y = of_int (rne ((10808639105689191 / 2 ^ 55) / 2 powi (- 2 - 52))) * 2 powi (- 2 - 52)
      in if 2 ^ 1024 \<le> \<bar>y\<bar> then (if 0 < (10808639105689191 / 2 ^ 55 :: real) then PlusInf else MinusInf)
         else Finite y)"
    by (rule round_f_at) (simp_all add: power_int_minus field_simps)
  moreover have "(10808639105689191 / 2 ^ 55 :: real) / 2 powi (- 2 - 52) = 10808639105689191 / 2"
    by (simp add: power_int_minus field_simps)
  moreover have "rne (10808639105689191 / 2) = 5404319552844596"
    by (simp add: rne_def Let_def)
  moreover have "(5404319552844596 :: real) * 2 powi (- 2 - 52) = 5404319552844596 / 2 ^ 54"
    by (simp add: power_int_minus field_simps)
  ultimately show ?thesis
    by (simp add: Let_def)
qed

lemma rne_upper_half:
  assumes "of_int n + 1 / 2 < z" "z < of_int n + 1"
  shows "rne z = n + 1"
proof -
  have "\<lfloor>z\<rfloor> = n"
    using assms by (intro floor_unique) simp_all
  with assms(1) show ?thesis
    by (simp add: rne_def Let_def)
qed

lemma round_f_sqrt_2: "round_f (sqrt 2) = Finite (6369051672525773 / 2 ^ 52)"
proof -
  have lo: "(6369051672525772 + 1 / 2) / 2 ^ 52 < sqrt 2"
    by (rule real_less_rsqrt) (simp add: power2_eq_square)
  have hi: "sqrt 2 < 6369051672525773 / 2 ^ 52"
    by (rule real_less_lsqrt) (simp_all add: power2_eq_square)
  have "1 \<le> sqrt 2" "sqrt 2 < 2"
    using hi by simp_all
  then have "round_f (sqrt 2) =
     (let y = of_int (rne (sqrt 2 / 2 powi (0 - 52))) * 2 powi (0 - 52)
      in if 2 ^ 1024 \<le> \<bar>y\<bar> then (if 0 < sqrt 2 then PlusInf else MinusInf) else Finite y)"
    by (intro round_f_at) simp_all
  moreover have "sqrt 2 / 2 powi (0 - 52) = sqrt 2 * 2 ^ 52"
    by (simp add: power_int_minus field_simps)
  moreover have "rne (sqrt 2 * 2 ^ 52) = 6369051672525772 + 1"
    using lo hi by (intro rne_upper_half) (simp_all add: field_simps)
  moreover have "(6369051672525773 :: real) * 2 powi (0 - 52) = 6369051672525773 / 2 ^ 52"
    by (simp add: power_int_minus field_simps)
  ultimately show ?thesis
    by (simp add: Let_def)
qed

subsection \<open>Reads and the two gradient sums\<close>

lemma norm_index_in_range: "0 \<le> k \<Longrightarrow> k < int n \<Longrightarrow> norm_index n k = Inr (nat k)"
  by (simp add: norm_index_def)

lemma getitem_in_grid: "in_grid a i j \<Longrightarrow> getitem a i j = Inr (cell a i j)"
  by (simp add: in_grid_def getitem_def cell_def norm_index_in_range)

lemma interior_neighbours:
  assumes "interior a i j"
  shows "in_grid a (i - 1) (j - 1)" "in_grid a i (j - 1)" "in_grid a (i + 1) (j - 1)"
    "in_grid a (i - 1) j" "in_grid a i j" "in_grid a (i + 1) j"
    "in_grid a (i - 1) (j + 1)" "in_grid a i (j + 1)" "in_grid a (i + 1) (j + 1)"
  using assms by (simp_all add: interior_def in_grid_def)

lemma neighbour_index: "k - 1 + 2 = k + (1::int)" "k - 1 + 1 = (k::int)"
  by simp_all

lemma G_x_transposed:
  assumes "interior img i j"
  shows "G_x img i j = Inr (transposed_conv3 prewitt_x img i j)"
  unfolding G_x_def interior_neighbours [OF assms, THEN getitem_in_grid]
  by (simp add: mul_r_def add_r_def transposed_conv3_def prewitt_x_def upt_rec neighbour_index)

lemma G_y_transposed:
  assumes "interior img i j"
  shows "G_y img i j = Inr (transposed_conv3 prewitt_y img i j)"
  unfolding G_y_def interior_neighbours [OF assms, THEN getitem_in_grid]
  by (simp add: mul_r_def add_r_def transposed_conv3_def prewitt_y_def upt_rec neighbour_index)

lemma G_mag_interior: "interior img i j \<Longrightarrow> G_mag img i j = Inr (magnitude img i j)"
  by (simp add: G_mag_def G_x_transposed G_y_transposed magnitude_def)

lemma magnitude_nonneg: "nonneg_f (magnitude img i j)"
  by (simp add: magnitude_def np_sqrt_nonneg)

lemma G_mag_nonneg: "G_mag img i j = Inr g \<Longrightarrow> nonneg_f g"
  by (auto simp: G_mag_def np_sqrt_nonneg split: sum.splits)

subsection \<open>Grids in tabulated form\<close>

lemma np_zeros_tabulate: "np_zeros R C = tabulate R C (\<lambda>_ _. F64 (Finite 0))"
  by (simp add: np_zeros_def tabulate_def map_replicate_trivial)

lemma cell_tabulate:
  assumes "0 \<le> i" "i < int R" "0 \<le> j" "j < int C"
  shows "cell (tabulate R C f) i j = f i j"
proof -
  from assms have "nat i < R" "nat j < C" "int (nat i) = i" "int (nat j) = j"
    by simp_all
  then show ?thesis
    by (simp add: cell_def tabulate_def)
qed

lemma tabulate_cong:
  assumes "\<And>a b. 0 \<le> a \<Longrightarrow> a < int R \<Longrightarrow> 0 \<le> b \<Longrightarrow> b < int C \<Longrightarrow> f a b = g a b"
  shows "tabulate R C f = tabulate R C g"
  using assms by (simp add: tabulate_def)

lemma wf_tabulate: "wf_ndarray (tabulate R C f)"
  by (simp add: wf_ndarray_def tabulate_def list_all_iff)

lemma setitem_tabulate:
  assumes "0 \<le> i" "i < int R" "0 \<le> j" "j < int C"
  shows "setitem (tabulate R C f) i j v =
           Inr (tabulate R C (\<lambda>a b. if a = i \<and> b = j then v else f a b))"
proof -
  let ?row = "\<lambda>g. \<lambda>r. map (\<lambda>c. g (int r) (int c)) [0..<C]"
  let ?f' = "\<lambda>a b. if a = i \<and> b = j then v else f a b"
  have row: "(?row f (nat i))[nat j := v] = ?row ?f' (nat i)"
    using assms by (auto simp: list_eq_iff_nth_eq nth_list_update)
  have "(map (?row f) [0..<R])[nat i := (?row f (nat i))[nat j := v]] = map (?row ?f') [0..<R]"
    unfolding row using assms by (auto simp: list_eq_iff_nth_eq nth_list_update)
  then show ?thesis
    using assms by (simp add: setitem_def tabulate_def norm_index_in_range)
qed

subsection \<open>The loops\<close>

lemma pixel_body_tabulate:
  assumes "interior src i j" "nrows src = R" "ncols src = C"
  shows "pixel_body src t i j (tabulate R C f) =
           Inr (tabulate R C (\<lambda>a b. if a = i \<and> b = j then edge_pixel src t i j else f a b))"
proof -
  have "0 \<le> i" "i < int R" "0 \<le> j" "j < int C"
    using assms by (auto simp: interior_def)
  moreover have "pixel_body src t i j (tabulate R C f) =
      setitem (tabulate R C f) i j (edge_pixel src t i j)"
    using assms(1) by (simp add: pixel_body_def G_mag_interior edge_pixel_def)
  ultimately show ?thesis
    by (simp add: setitem_tabulate)
qed

lemma inner_loop_tabulate:
  assumes "\<forall>j\<in>set js. interior src i j" "nrows src = R" "ncols src = C"
  shows "for_loop js (pixel_body src t i) (tabulate R C f) =
           Inr (tabulate R C (\<lambda>a b. if a = i \<and> b \<in> set js then edge_pixel src t a b else f a b))"
  using assms(1)
proof (induction js arbitrary: f)
  case Nil
  then show ?case by simp
next
  case (Cons j js)
  let ?f1 = "\<lambda>a b. if a = i \<and> b = j then edge_pixel src t i j else f a b"
  have step: "pixel_body src t i j (tabulate R C f) = Inr (tabulate R C ?f1)"
    using Cons.prems assms(2,3) by (simp add: pixel_body_tabulate)
  have rest: "for_loop js (pixel_body src t i) (tabulate R C ?f1) =
      Inr (tabulate R C (\<lambda>a b. if a = i \<and> b \<in> set js then edge_pixel src t a b else ?f1 a b))"
    using Cons.prems by (intro Cons.IH) simp
  have "(\<lambda>a b. if a = i \<and> b \<in> set js then edge_pixel src t a b else ?f1 a b) =
        (\<lambda>a b. if a = i \<and> b \<in> set (j # js) then edge_pixel src t a b else f a b)"
    by (intro ext) auto
  with step rest show ?case by simp
qed

lemma outer_loop_tabulate:
  assumes "\<forall>i\<in>set is. \<forall>j\<in>set js. interior src i j" "nrows src = R" "ncols src = C"
  shows "for_loop is (\<lambda>i. for_loop js (pixel_body src t i)) (tabulate R C f) =
           Inr (tabulate R C
             (\<lambda>a b. if a \<in> set is \<and> b \<in> set js then edge_pixel src t a b else f a b))"
  using assms(1)
proof (induction "is" arbitrary: f)
  case Nil
  then show ?case by simp
next
  case (Cons i "is")
  let ?f1 = "\<lambda>a b. if a = i \<and> b \<in> set js then edge_pixel src t a b else f a b"
  have step: "for_loop js (pixel_body src t i) (tabulate R C f) = Inr (tabulate R C ?f1)"
    using Cons.prems assms(2,3) by (intro inner_loop_tabulate) simp_all
  have rest: "for_loop is (\<lambda>i. for_loop js (pixel_body src t i)) (tabulate R C ?f1) =
      Inr (tabulate R C
        (\<lambda>a b. if a \<in> set is \<and> b \<in> set js then edge_pixel src t a b else ?f1 a b))"
    using Cons.prems by (intro Cons.IH) simp
  have "(\<lambda>a b. if a \<in> set is \<and> b \<in> set js then edge_pixel src t a b else ?f1 a b) =
        (\<lambda>a b. if a \<in> set (i # is) \<and> b \<in> set js then edge_pixel src t a b else f a b)"
    by (intro ext) auto
  with step rest show ?case by simp
qed

lemma loops_edge_map:
  "for_loop (py_range 1 (int (nrows src) - 1))
     (\<lambda>i. for_loop (py_range 1 (int (ncols src) - 1)) (\<lambda>j. pixel_body src t i j))
     (np_zeros (nrows src) (ncols src)) = Inr (edge_map src t)"
proof -
  let ?is = "py_range 1 (int (nrows src) - 1)" and ?js = "py_range 1 (int (ncols src) - 1)"
  have mem: "a \<in> set ?is \<and> b \<in> set ?js \<longleftrightarrow> interior src a b" for a b
    by (auto simp: py_range_def interior_def)
  have "for_loop ?is (\<lambda>i. for_loop ?js (pixel_body src t i))
          (tabulate (nrows src) (ncols src) (\<lambda>_ _. F64 (Finite 0))) =
        Inr (tabulate (nrows src) (ncols src)
          (\<lambda>a b. if a \<in> set ?is \<and> b \<in> set ?js then edge_pixel src t a b else F64 (Finite 0)))"
    using mem by (intro outer_loop_tabulate) blast+
  then show ?thesis
    by (simp add: np_zeros_tabulate edge_map_def mem)
qed

lemma for_loop_no_inner: "for_loop ks (\<lambda>k. for_loop [] (body k)) s = Inr s"
  by (induction ks) simp_all

subsection \<open>The result of a call\<close>

lemma shape_loop_image:
  assumes "smoothing_ok blur img smooth"
  shows "nrows (loop_image blur img smooth) = nrows img"
    and "ncols (loop_image blur img smooth) = ncols img"
  using assms by (auto simp: smoothing_ok_def loop_image_def split: sum.splits if_splits)

lemma interior_loop_image:
  "smoothing_ok blur img smooth \<Longrightarrow> interior (loop_image blur img smooth) i j = interior img i j"
  by (simp add: interior_def shape_loop_image)

lemma in_grid_loop_image:
  "smoothing_ok blur img smooth \<Longrightarrow> in_grid (loop_image blur img smooth) i j = in_grid img i j"
  by (simp add: in_grid_def shape_loop_image)

lemma prewitt_operator_edge_map:
  assumes "smoothing_ok blur img smooth"
  shows "prewitt_operator blur img t smooth = Inr (edge_map (loop_image blur img smooth) t)"
proof (cases smooth)
  case False
  then show ?thesis
    by (simp add: prewitt_operator_def loop_image_def loops_edge_map)
next
  case True
  with assms obtain b where b: "blur img = Inr b" "nrows b = nrows img" "ncols b = ncols img"
    by (auto simp: smoothing_ok_def split: sum.splits)
  have "for_loop (py_range 1 (int (nrows b) - 1))
     (\<lambda>i. for_loop (py_range 1 (int (ncols b) - 1)) (\<lambda>j. pixel_body b t i j))
     (np_zeros (nrows b) (ncols b)) = Inr (edge_map b t)"
    by (rule loops_edge_map)
  with True b show ?thesis
    by (simp add: prewitt_operator_def loop_image_def)
qed

lemma shape_edge_map: "nrows (edge_map src t) = nrows src" "ncols (edge_map src t) = ncols src"
  by (simp_all add: edge_map_def tabulate_def)

lemma getitem_edge_map:
  assumes "in_grid src i j"
  shows "getitem (edge_map src t) i j =
           Inr (if interior src i j then edge_pixel src t i j else F64 (Finite 0))"
proof -
  have "in_grid (edge_map src t) i j"
    using assms by (simp add: in_grid_def shape_edge_map)
  then have "getitem (edge_map src t) i j = Inr (cell (edge_map src t) i j)"
    by (rule getitem_in_grid)
  also have "cell (edge_map src t) i j = (if interior src i j then edge_pixel src t i j else F64 (Finite 0))"
    unfolding edge_map_def using assms by (intro cell_tabulate) (simp_all add: in_grid_def)
  finally show ?thesis .
qed

lemma edge_map_zero:
  assumes "\<And>a b. interior src a b \<Longrightarrow> edge_pixel src t a b = F64 (Finite 0)"
  shows "edge_map src t = np_zeros (nrows src) (ncols src)"
  unfolding edge_map_def np_zeros_tabulate
  by (rule tabulate_cong) (simp add: assms)

subsection \<open>The store-passing function against the value-passing one\<close>

lemma for_loop_store:
  assumes "\<And>k e. k \<in> set ks \<Longrightarrow>
     body_st k (h[p := e]) = (case body k e of Inl x \<Rightarrow> Inl x | Inr e' \<Rightarrow> Inr (h[p := e']))"
  shows "for_loop ks body_st (h[p := e]) =
           (case for_loop ks body e of Inl x \<Rightarrow> Inl x | Inr e' \<Rightarrow> Inr (h[p := e']))"
  using assms
proof (induction ks arbitrary: e)
  case Nil
  then show ?case by simp
next
  case (Cons k ks)
  have head: "body_st k (h[p := e]) =
      (case body k e of Inl x \<Rightarrow> Inl x | Inr e' \<Rightarrow> Inr (h[p := e']))"
    by (rule Cons.prems) simp
  have tail: "for_loop ks body_st (h[p := e']) =
      (case for_loop ks body e' of Inl x \<Rightarrow> Inl x | Inr e'' \<Rightarrow> Inr (h[p := e'']))" for e'
    by (rule Cons.IH) (simp add: Cons.prems)
  show ?case
    by (simp add: head tail split: sum.splits)
qed

lemma pixel_body_store:
  assumes "p < length h" "q < length h" "q \<noteq> p"
  shows "pixel_body_st q p t i j (h[p := e]) =
           (case pixel_body (h ! q) t i j e of Inl x \<Rightarrow> Inl x | Inr e' \<Rightarrow> Inr (h[p := e']))"
  using assms
  by (simp add: pixel_body_st_def pixel_body_def setitem_st_def split: sum.splits)

lemma loops_store:
  assumes "p < length h" "q < length h" "q \<noteq> p"
  shows "for_loop is (\<lambda>i. for_loop js (\<lambda>j. pixel_body_st q p t i j)) (h[p := e]) =
           (case for_loop is (\<lambda>i. for_loop js (\<lambda>j. pixel_body (h ! q) t i j)) e of
              Inl x \<Rightarrow> Inl x
            | Inr e' \<Rightarrow> Inr (h[p := e']))"
  by (intro for_loop_store pixel_body_store assms)

lemma prewitt_operator_st_run:
  assumes "img < length h" "smoothing_ok blur (h ! img) smooth"
  shows "prewitt_operator_st blur img t smooth h =
           Inr (length h,
                h @ edge_map (loop_image blur (h ! img) smooth) t #
                    (if smooth then [loop_image blur (h ! img) smooth] else []))"
proof -
  let ?Z = "np_zeros (nrows (h ! img)) (ncols (h ! img))"
  let ?p = "length h"
  show ?thesis
  proof (cases smooth)
    case False
    let ?h1 = "h @ [?Z]"
    have "for_loop (py_range 1 (int (nrows (h ! img)) - 1))
            (\<lambda>i. for_loop (py_range 1 (int (ncols (h ! img)) - 1))
               (\<lambda>j. pixel_body_st img ?p t i j)) (?h1[?p := ?Z]) =
          Inr (?h1[?p := edge_map (h ! img) t])"
      using assms(1) by (subst loops_store) (simp_all add: nth_append loops_edge_map)
    with False show ?thesis
      by (simp add: prewitt_operator_st_def np_zeros_st_def alloc_def loop_image_def)
  next
    case True
    with assms(2) obtain b where
      b: "blur (h ! img) = Inr b" "nrows b = nrows (h ! img)" "ncols b = ncols (h ! img)"
      by (auto simp: smoothing_ok_def split: sum.splits)
    let ?h2 = "h @ [?Z, b]"
    have edge: "for_loop (py_range 1 (int (nrows b) - 1))
        (\<lambda>i. for_loop (py_range 1 (int (ncols b) - 1)) (\<lambda>j. pixel_body b t i j))
        (np_zeros (nrows b) (ncols b)) = Inr (edge_map b t)"
      by (rule loops_edge_map)
    have "for_loop (py_range 1 (int (nrows (h ! img)) - 1))
            (\<lambda>i. for_loop (py_range 1 (int (ncols (h ! img)) - 1))
               (\<lambda>j. pixel_body_st (Suc ?p) ?p t i j)) (?h2[?p := ?Z]) =
          Inr (?h2[?p := edge_map b t])"
      using edge b by (subst loops_store) (simp_all add: nth_append)
    with True b assms(1) show ?thesis
      by (simp add: prewitt_operator_st_def np_zeros_st_def alloc_def GaussianBlur_st_def
          loop_image_def nth_append)
  qed
qed

subsection \<open>Magnitudes and the threshold\<close>

lemma flt_mono: "flt g t1 \<Longrightarrow> t1 \<le> t2 \<Longrightarrow> flt g t2"
  by (cases g) auto

lemma pixel_body_negative_threshold:
  assumes "t < 0"
  shows "pixel_body img t i j e = pixel_body img 0 i j e"
proof (cases "G_mag img i j")
  case (Inl x)
  then show ?thesis by (simp add: pixel_body_def)
next
  case (Inr g)
  then have "nonneg_f g" by (rule G_mag_nonneg)
  with assms have "\<not> flt g t" "\<not> flt g 0"
    by (simp_all add: nonneg_not_flt)
  with Inr show ?thesis by (simp add: pixel_body_def)
qed

subsection \<open>Grids of integers\<close>

lemma cell_list_all:
  assumes "wf_ndarray a" "list_all (list_all P) (cells a)" "in_grid a i j"
  shows "P (cell a i j)"
proof -
  from assms(1,3) have r: "nat i < length (cells a)"
    by (auto simp: wf_ndarray_def in_grid_def)
  then have row: "cells a ! nat i \<in> set (cells a)"
    by simp
  with assms(1,3) have "nat j < length (cells a ! nat i)"
    by (auto simp: wf_ndarray_def in_grid_def list_all_iff)
  then have "cells a ! nat i ! nat j \<in> set (cells a ! nat i)"
    by simp
  with row assms(2) show ?thesis
    by (auto simp: cell_def list_all_iff)
qed

lemma is_int_cases:
  assumes "is_int s"
  obtains a where "s = I64 a"
  using assms by (cases s) auto

lemma small_int_cases:
  assumes "small_int s"
  obtains a where "s = I64 a" "\<bar>sint a\<bar> \<le> 2 ^ 23"
  using assms by (cases s) auto

lemma sint_small: "- (2 ^ 63) \<le> k \<Longrightarrow> k < 2 ^ 63 \<Longrightarrow> sint (word_of_int k :: 64 word) = k"
  by (simp add: sint_sbintrunc' signed_take_bit_int_eq_self)

lemma to_float64_small:
  assumes "0 \<le> k" "k < 2 ^ 53"
  shows "to_float64 (I64 (word_of_int k)) = Finite (of_int k)"
proof -
  have "k < 2 ^ 63"
    using assms(2) by (rule less_le_trans) simp
  with assms(1) have "sint (word_of_int k :: 64 word) = k"
    by (intro sint_small) simp_all
  moreover have "round_f (of_int k) = Finite (of_int k)"
    using assms by (intro round_f_of_int) simp
  ultimately show ?thesis
    by (simp del: of_int_sint)
qed

text \<open>In 64-bit integers the order of the terms does not matter.\<close>

lemma conv3_int_grid:
  assumes "int_grid img" "interior img i j"
  shows "transposed_conv3 prewitt_x img i j = rowmajor_conv3 prewitt_y img i j"
    and "transposed_conv3 prewitt_y img i j = rowmajor_conv3 prewitt_x img i j"
    and "sadd (spow2 (rowmajor_conv3 prewitt_y img i j)) (spow2 (rowmajor_conv3 prewitt_x img i j)) =
         sadd (spow2 (rowmajor_conv3 prewitt_x img i j)) (spow2 (rowmajor_conv3 prewitt_y img i j))"
proof -
  have ii: "is_int (cell img a b)" if "in_grid img a b" for a b
    using assms(1) that by (auto simp: int_grid_def intro: cell_list_all)
  note nb = interior_neighbours [OF assms(2), THEN ii]
  from nb(1) obtain a1 where c1: "cell img (i - 1) (j - 1) = I64 a1" by (rule is_int_cases)
  from nb(2) obtain a2 where c2: "cell img i (j - 1) = I64 a2" by (rule is_int_cases)
  from nb(3) obtain a3 where c3: "cell img (i + 1) (j - 1) = I64 a3" by (rule is_int_cases)
  from nb(4) obtain a4 where c4: "cell img (i - 1) j = I64 a4" by (rule is_int_cases)
  from nb(5) obtain a5 where c5: "cell img i j = I64 a5" by (rule is_int_cases)
  from nb(6) obtain a6 where c6: "cell img (i + 1) j = I64 a6" by (rule is_int_cases)
  from nb(7) obtain a7 where c7: "cell img (i - 1) (j + 1) = I64 a7" by (rule is_int_cases)
  from nb(8) obtain a8 where c8: "cell img i (j + 1) = I64 a8" by (rule is_int_cases)
  from nb(9) obtain a9 where c9: "cell img (i + 1) (j + 1) = I64 a9" by (rule is_int_cases)
  note cs = c1 c2 c3 c4 c5 c6 c7 c8 c9
  show "transposed_conv3 prewitt_x img i j = rowmajor_conv3 prewitt_y img i j"
    by (simp add: transposed_conv3_def rowmajor_conv3_def prewitt_x_def prewitt_y_def upt_rec
        neighbour_index cs)
  show "transposed_conv3 prewitt_y img i j = rowmajor_conv3 prewitt_x img i j"
    by (simp add: transposed_conv3_def rowmajor_conv3_def prewitt_x_def prewitt_y_def upt_rec
        neighbour_index cs)
  show "sadd (spow2 (rowmajor_conv3 prewitt_y img i j)) (spow2 (rowmajor_conv3 prewitt_x img i j)) =
        sadd (spow2 (rowmajor_conv3 prewitt_x img i j)) (spow2 (rowmajor_conv3 prewitt_y img i j))"
    by (simp add: rowmajor_conv3_def prewitt_x_def prewitt_y_def upt_rec neighbour_index cs)
qed

lemma uniform_int_sums:
  assumes "wf_ndarray a" "uniform a (I64 c)" "interior a i j"
  shows "transposed_conv3 prewitt_x a i j = I64 0" "transposed_conv3 prewitt_y a i j = I64 0"
proof -
  have u: "cell a p q = I64 c" if "in_grid a p q" for p q
    using cell_list_all [OF assms(1) _ that, of "\<lambda>x. x = I64 c"] assms(2)
    by (simp add: uniform_def)
  note nb = interior_neighbours [OF assms(3), THEN u]
  show "transposed_conv3 prewitt_x a i j = I64 0"
    by (simp add: transposed_conv3_def prewitt_x_def upt_rec neighbour_index nb)
  show "transposed_conv3 prewitt_y a i j = I64 0"
    by (simp add: transposed_conv3_def prewitt_y_def upt_rec neighbour_index nb)
qed

lemma magnitude_uniform_int:
  assumes "wf_ndarray a" "uniform a (I64 c)" "interior a i j"
  shows "magnitude a i j = Finite 0"
  by (simp add: magnitude_def uniform_int_sums [OF assms] np_sqrt_def)

lemma magnitude_small_int:
  assumes "small_int_grid img" "interior img i j"
  shows "magnitude img i j = round_f (spec_Gmag img i j)"
proof -
  have ii: "small_int (cell img a b)" if "in_grid img a b" for a b
    using assms(1) that by (auto simp: small_int_grid_def intro: cell_list_all)
  note nb = interior_neighbours [OF assms(2), THEN ii]
  from nb(1) obtain a1 where c1: "cell img (i - 1) (j - 1) = I64 a1" and b1: "\<bar>sint a1\<bar> \<le> 2 ^ 23"
    by (rule small_int_cases)
  from nb(2) obtain a2 where c2: "cell img i (j - 1) = I64 a2" and b2: "\<bar>sint a2\<bar> \<le> 2 ^ 23"
    by (rule small_int_cases)
  from nb(3) obtain a3 where c3: "cell img (i + 1) (j - 1) = I64 a3" and b3: "\<bar>sint a3\<bar> \<le> 2 ^ 23"
    by (rule small_int_cases)
  from nb(4) obtain a4 where c4: "cell img (i - 1) j = I64 a4" and b4: "\<bar>sint a4\<bar> \<le> 2 ^ 23"
    by (rule small_int_cases)
  from nb(5) obtain a5 where c5: "cell img i j = I64 a5" and b5: "\<bar>sint a5\<bar> \<le> 2 ^ 23"
    by (rule small_int_cases)
  from nb(6) obtain a6 where c6: "cell img (i + 1) j = I64 a6" and b6: "\<bar>sint a6\<bar> \<le> 2 ^ 23"
    by (rule small_int_cases)
  from nb(7) obtain a7 where c7: "cell img (i - 1) (j + 1) = I64 a7" and b7: "\<bar>sint a7\<bar> \<le> 2 ^ 23"
    by (rule small_int_cases)
  from nb(8) obtain a8 where c8: "cell img i (j + 1) = I64 a8" and b8: "\<bar>sint a8\<bar> \<le> 2 ^ 23"
    by (rule small_int_cases)
  from nb(9) obtain a9 where c9: "cell img (i + 1) (j + 1) = I64 a9" and b9: "\<bar>sint a9\<bar> \<le> 2 ^ 23"
    by (rule small_int_cases)
  note cs = c1 c2 c3 c4 c5 c6 c7 c8 c9
  define gx where "gx = sint a1 - sint a3 + sint a4 - sint a6 + sint a7 - sint a9"
  define gy where "gy = sint a1 + sint a2 + sint a3 - sint a7 - sint a8 - sint a9"
  define S where "S = gx * gx + gy * gy"
  have tx: "transposed_conv3 prewitt_x img i j = I64 (word_of_int gx)"
    by (simp add: transposed_conv3_def prewitt_x_def upt_rec neighbour_index cs gx_def)
  have ty: "transposed_conv3 prewitt_y img i j = I64 (word_of_int gy)"
    by (simp add: transposed_conv3_def prewitt_y_def upt_rec neighbour_index cs gy_def)
  have sx: "spec_conv3 prewitt_x img i j = of_int gy"
    by (simp add: spec_conv3_def prewitt_x_def upt_rec neighbour_index cs gy_def
        del: of_int_sint)
  have sy: "spec_conv3 prewitt_y img i j = of_int gx"
    by (simp add: spec_conv3_def prewitt_y_def upt_rec neighbour_index cs gx_def
        del: of_int_sint)
  have bs: "- 8388608 \<le> sint a1 \<and> sint a1 \<le> 8388608" "- 8388608 \<le> sint a2 \<and> sint a2 \<le> 8388608"
    "- 8388608 \<le> sint a3 \<and> sint a3 \<le> 8388608" "- 8388608 \<le> sint a4 \<and> sint a4 \<le> 8388608"
    "- 8388608 \<le> sint a6 \<and> sint a6 \<le> 8388608" "- 8388608 \<le> sint a7 \<and> sint a7 \<le> 8388608"
    "- 8388608 \<le> sint a8 \<and> sint a8 \<le> 8388608" "- 8388608 \<le> sint a9 \<and> sint a9 \<le> 8388608"
    using b1 b2 b3 b4 b6 b7 b8 b9 by (simp_all add: abs_le_iff)
  have "- 50331648 \<le> gx \<and> gx \<le> 50331648"
    using bs unfolding gx_def by linarith
  then have "\<bar>gx\<bar> \<le> 50331648"
    by (simp add: abs_le_iff)
  moreover have "- 50331648 \<le> gy \<and> gy \<le> 50331648"
    using bs unfolding gy_def by linarith
  then have "\<bar>gy\<bar> \<le> 50331648"
    by (simp add: abs_le_iff)
  ultimately have "gx\<^sup>2 \<le> 50331648\<^sup>2" "gy\<^sup>2 \<le> 50331648\<^sup>2"
    using abs_le_square_iff [of gx 50331648] abs_le_square_iff [of gy 50331648] by simp_all
  then have S: "0 \<le> S" "S < 2 ^ 53"
    by (simp_all add: S_def power2_eq_square)
  have "magnitude img i j = np_sqrt (I64 (word_of_int S))"
    by (simp add: magnitude_def tx ty S_def)
  also have "\<dots> = fsqrt (Finite (of_int S))"
    using S by (simp only: np_sqrt_def to_float64_small)
  also have "\<dots> = round_f (sqrt (of_int S))"
    using S by simp
  also have "sqrt (of_int S) = spec_Gmag img i j"
    by (simp add: spec_Gmag_def sx sy S_def power2_eq_square add.commute)
  finally show ?thesis .
qed

subsection \<open>The concrete inputs, evaluated\<close>

lemma sqrt_25: "sqrt 25 = 5"
  using real_sqrt_abs [of 5] by simp

lemma round_f_5: "round_f 5 = Finite 5"
  using round_f_of_int [of 5] by simp

lemma round_f_25: "round_f 25 = Finite 25"
  using round_f_of_int [of 25] by simp

lemma G_x_img345: "G_x img345 1 1 = Inr (I64 4)"
  by (simp add: G_x_def getitem_def norm_index_def mul_r_def add_r_def prewitt_x_def img345_def
      numeral_eq_Suc)

lemma G_y_img345: "G_y img345 1 1 = Inr (I64 3)"
  by (simp add: G_y_def getitem_def norm_index_def mul_r_def add_r_def prewitt_y_def img345_def
      numeral_eq_Suc)

lemma G_mag_img345: "G_mag img345 1 1 = Inr (Finite 5)"
  by (simp add: G_mag_def G_x_img345 G_y_img345 np_sqrt_def round_f_25 round_f_5 sqrt_25)

lemma prewitt_operator_img345:
  "prewitt_operator blur img345 t False =
     Inr \<lparr>nrows = 3, ncols = 3,
          cells = [[F64 (Finite 0), F64 (Finite 0), F64 (Finite 0)],
                   [F64 (Finite 0), F64 (if 5 < t then Finite 0 else Finite 5), F64 (Finite 0)],
                   [F64 (Finite 0), F64 (Finite 0), F64 (Finite 0)]]\<rparr>"
proof -
  have "pixel_body img345 t 1 1 (np_zeros 3 3) =
      Inr \<lparr>nrows = 3, ncols = 3,
          cells = [[F64 (Finite 0), F64 (Finite 0), F64 (Finite 0)],
                   [F64 (Finite 0), F64 (if 5 < t then Finite 0 else Finite 5), F64 (Finite 0)],
                   [F64 (Finite 0), F64 (Finite 0), F64 (Finite 0)]]\<rparr>"
    by (simp add: pixel_body_def G_mag_img345 setitem_def norm_index_def np_zeros_def
        numeral_eq_Suc)
  moreover have "nrows img345 = 3" "ncols img345 = 3"
    by (simp_all add: img345_def)
  ultimately show ?thesis
    by (simp add: prewitt_operator_def py_range_def upto.simps)
qed

lemma getitem_centre:
  "getitem \<lparr>nrows = 3, ncols = 3, cells = [[a, b, c], [d, e, f], [g, h, k]]\<rparr> 1 1 = Inr e"
  by (simp add: getitem_def norm_index_def)

lemma smoothing_ok_halve: "smoothing_ok halve img smooth"
  by (simp add: smoothing_ok_def halve_def)

lemma flat_tenth_sums:
  shows "G_x flat_tenth 1 1 = Inr (F64 (Finite 0))"
    and "G_y flat_tenth 1 1 = Inr (F64 (Finite (1 / 2 ^ 55)))"
    and "rowmajor_conv3 prewitt_x flat_tenth 1 1 = F64 (Finite 0)"
    and "rowmajor_conv3 prewitt_y flat_tenth 1 1 = F64 (Finite (1 / 2 ^ 55))"
proof -
  define a :: real where "a = 3602879701896397 / 2 ^ 55"
  define b :: real where "b = 3602879701896397 / 2 ^ 54"
  define c :: real where "c = 5404319552844596 / 2 ^ 54"
  define d :: real where "d = 7205759403792795 / 2 ^ 55"
  define e :: real where "e = 3602879701896398 / 2 ^ 55"
  define f :: real where "f = 1 / 2 ^ 55"
  have t: "tenth = F64 (Finite a)"
    by (simp add: tenth_def a_def)
  have ra: "round_f a = Finite a" "round_f (- a) = Finite (- a)"
    unfolding a_def
    using round_f_dyadic [of 3602879701896397 55] round_f_dyadic [of "- 3602879701896397" 55]
    by simp_all
  have rb: "round_f b = Finite b"
    unfolding b_def using round_f_dyadic [of 3602879701896397 54] by simp
  have rc: "round_f c = Finite c"
    unfolding c_def using round_f_dyadic [of 5404319552844596 54] by simp
  have rd: "round_f d = Finite d"
    unfolding d_def using round_f_dyadic [of 7205759403792795 55] by simp
  have re: "round_f e = Finite e"
    unfolding e_def using round_f_dyadic [of 3602879701896398 55] by simp
  have rf: "round_f f = Finite f"
    unfolding f_def using round_f_dyadic [of 1 55] by simp
  have r3: "round_f (b + a) = Finite c"
  proof -
    have "b + a = 10808639105689191 / 2 ^ 55"
      by (simp add: a_def b_def)
    then show ?thesis
      by (simp only: round_f_three_tenths c_def)
  qed
  have sums: "a + a = b" "c - a = d" "d - a = e" "e - a = f"
    by (simp_all add: a_def b_def c_def d_def e_def f_def)
  have m1: "smul (F64 (Finite a)) (I64 1) = F64 (Finite a)"
    and m0: "smul (F64 (Finite a)) (I64 0) = F64 (Finite 0)"
    and mm: "smul (F64 (Finite a)) (I64 (- 1)) = F64 (Finite (- a))"
    and k1: "smul (I64 1) (F64 (Finite a)) = F64 (Finite a)"
    and k0: "smul (I64 0) (F64 (Finite a)) = F64 (Finite 0)"
    and km: "smul (I64 (- 1)) (F64 (Finite a)) = F64 (Finite (- a))"
    by (simp_all add: ra)
  have s1: "sadd (F64 (Finite a)) (F64 (Finite a)) = F64 (Finite b)"
    and s2: "sadd (F64 (Finite b)) (F64 (Finite a)) = F64 (Finite c)"
    and s3: "sadd (F64 (Finite c)) (F64 (Finite 0)) = F64 (Finite c)"
    and s4: "sadd (F64 (Finite c)) (F64 (Finite (- a))) = F64 (Finite d)"
    and s5: "sadd (F64 (Finite d)) (F64 (Finite (- a))) = F64 (Finite e)"
    and s6: "sadd (F64 (Finite e)) (F64 (Finite (- a))) = F64 (Finite f)"
    and z1: "sadd (F64 (Finite a)) (F64 (Finite 0)) = F64 (Finite a)"
    and z2: "sadd (F64 (Finite a)) (F64 (Finite (- a))) = F64 (Finite 0)"
    and z3: "sadd (F64 (Finite 0)) (F64 (Finite a)) = F64 (Finite a)"
    by (simp_all add: sums ra rb rc rd re rf r3)
  note steps = t m1 m0 mm k1 k0 km s1 s2 s3 s4 s5 s6 z1 z2 z3
  have "G_x flat_tenth 1 1 =
      Inr (sadd (sadd (sadd (sadd (sadd (sadd (sadd (sadd
        (smul tenth (I64 1)) (smul tenth (I64 0))) (smul tenth (I64 (- 1))))
        (smul tenth (I64 1))) (smul tenth (I64 0))) (smul tenth (I64 (- 1))))
        (smul tenth (I64 1))) (smul tenth (I64 0))) (smul tenth (I64 (- 1))))"
    by (simp add: G_x_def getitem_def norm_index_def mul_r_def add_r_def prewitt_x_def
        flat_tenth_def numeral_eq_Suc)
  also have "\<dots> = Inr (F64 (Finite 0))"
    by (simp only: steps)
  finally show "G_x flat_tenth 1 1 = Inr (F64 (Finite 0))" .
  have "G_y flat_tenth 1 1 =
      Inr (sadd (sadd (sadd (sadd (sadd (sadd (sadd (sadd
        (smul tenth (I64 1)) (smul tenth (I64 1))) (smul tenth (I64 1)))
        (smul tenth (I64 0))) (smul tenth (I64 0))) (smul tenth (I64 0)))
        (smul tenth (I64 (- 1)))) (smul tenth (I64 (- 1)))) (smul tenth (I64 (- 1))))"
    by (simp add: G_y_def getitem_def norm_index_def mul_r_def add_r_def prewitt_y_def
        flat_tenth_def numeral_eq_Suc)
  also have "\<dots> = Inr (F64 (Finite f))"
    by (simp only: steps)
  finally show "G_y flat_tenth 1 1 = Inr (F64 (Finite (1 / 2 ^ 55)))"
    by (simp only: f_def)
  have "rowmajor_conv3 prewitt_x flat_tenth 1 1 =
      sadd (sadd (sadd (sadd (sadd (sadd (sadd (sadd
        (smul (I64 1) tenth) (smul (I64 0) tenth)) (smul (I64 (- 1)) tenth))
        (smul (I64 1) tenth)) (smul (I64 0) tenth)) (smul (I64 (- 1)) tenth))
        (smul (I64 1) tenth)) (smul (I64 0) tenth)) (smul (I64 (- 1)) tenth)"
    by (simp add: rowmajor_conv3_def cell_def prewitt_x_def flat_tenth_def upt_rec numeral_eq_Suc)
  also have "\<dots> = F64 (Finite 0)"
    by (simp only: steps)
  finally show "rowmajor_conv3 prewitt_x flat_tenth 1 1 = F64 (Finite 0)" .
  have "rowmajor_conv3 prewitt_y flat_tenth 1 1 =
      sadd (sadd (sadd (sadd (sadd (sadd (sadd (sadd
        (smul (I64 1) tenth) (smul (I64 1) tenth)) (smul (I64 1) tenth))
        (smul (I64 0) tenth)) (smul (I64 0) tenth)) (smul (I64 0) tenth))
        (smul (I64 (- 1)) tenth)) (smul (I64 (- 1)) tenth)) (smul (I64 (- 1)) tenth)"
    by (simp add: rowmajor_conv3_def cell_def prewitt_y_def flat_tenth_def upt_rec numeral_eq_Suc)
  also have "\<dots> = F64 (Finite f)"
    by (simp only: steps)
  finally show "rowmajor_conv3 prewitt_y flat_tenth 1 1 = F64 (Finite (1 / 2 ^ 55))"
    by (simp only: f_def)
qed

lemma sqrt_2_pow_110: "sqrt (1 / 2 ^ 110) = 1 / 2 ^ 55"
proof -
  have "(1 / 2 ^ 110 :: real) = (1 / 2 ^ 55)\<^sup>2"
    by (simp add: power2_eq_square)
  then show ?thesis
    by (simp only: real_sqrt_abs) simp
qed

lemma G_mag_flat_tenth: "G_mag flat_tenth 1 1 = Inr (Finite (1 / 2 ^ 55))"
proof -
  define p :: real where "p = 1 / 2 ^ 55"
  define q :: real where "q = 1 / 2 ^ 110"
  have pq: "p * p = q" "\<not> q < 0"
    by (simp_all add: p_def q_def)
  have rp: "round_f p = Finite p" and rq: "round_f q = Finite q"
    unfolding p_def q_def using round_f_dyadic [of 1 55] round_f_dyadic [of 1 110] by simp_all
  have "sqrt q = p"
    unfolding p_def q_def by (rule sqrt_2_pow_110)
  then have "np_sqrt (sadd (spow2 (F64 (Finite 0))) (spow2 (F64 (Finite p)))) = Finite p"
    by (simp add: np_sqrt_def pq rp rq)
  then show ?thesis
    by (simp only: G_mag_def flat_tenth_sums sum.case p_def)
qed

lemma prewitt_operator_flat_tenth:
  "prewitt_operator blur flat_tenth 0 False =
     Inr \<lparr>nrows = 3, ncols = 3,
          cells = [[F64 (Finite 0), F64 (Finite 0), F64 (Finite 0)],
                   [F64 (Finite 0), F64 (Finite (1 / 2 ^ 55)), F64 (Finite 0)],
                   [F64 (Finite 0), F64 (Finite 0), F64 (Finite 0)]]\<rparr>"
proof -
  have "pixel_body flat_tenth 0 1 1 (np_zeros 3 3) =
      Inr \<lparr>nrows = 3, ncols = 3,
          cells = [[F64 (Finite 0), F64 (Finite 0), F64 (Finite 0)],
                   [F64 (Finite 0), F64 (Finite (1 / 2 ^ 55)), F64 (Finite 0)],
                   [F64 (Finite 0), F64 (Finite 0), F64 (Finite 0)]]\<rparr>"
    by (simp add: pixel_body_def G_mag_flat_tenth setitem_def norm_index_def np_zeros_def
        numeral_eq_Suc)
  moreover have "nrows flat_tenth = 3" "ncols flat_tenth = 3"
    by (simp_all add: flat_tenth_def)
  ultimately show ?thesis
    by (simp add: prewitt_operator_def py_range_def upto.simps)
qed

lemma prewitt_operator_img_2p32:
  "prewitt_operator blur img_2p32 0 False =
     Inr \<lparr>nrows = 3, ncols = 3,
          cells = [[F64 (Finite 0), F64 (Finite 0), F64 (Finite 0)],
                   [F64 (Finite 0), F64 (Finite 0), F64 (Finite 0)],
                   [F64 (Finite 0), F64 (Finite 0), F64 (Finite 0)]]\<rparr>"
  by (simp add: prewitt_operator_def py_range_def upto.simps pixel_body_def G_mag_def G_x_def
      G_y_def getitem_def setitem_def norm_index_def mul_r_def add_r_def prewitt_x_def
      prewitt_y_def np_zeros_def img_2p32_def np_sqrt_def numeral_eq_Suc)

lemma G_x_img_2p32: "G_x img_2p32 1 1 = Inr (I64 12884901888)"
  by (simp add: G_x_def getitem_def norm_index_def mul_r_def add_r_def prewitt_x_def
      img_2p32_def numeral_eq_Suc)

lemma spec_Gmag_img_2p32: "spec_Gmag img_2p32 1 1 = 12884901888"
proof -
  have "spec_conv3 prewitt_x img_2p32 1 1 = 0" "spec_conv3 prewitt_y img_2p32 1 1 = 12884901888"
    by (simp_all add: spec_conv3_def prewitt_x_def prewitt_y_def cell_def img_2p32_def upt_rec
        numeral_eq_Suc)
  then show ?thesis
    by (simp add: spec_Gmag_def)
qed

lemma G_mag_img_unit: "G_mag img_unit 1 1 = Inr (Finite sqrt2_double)"
proof -
  have "G_x img_unit 1 1 = Inr (I64 1)" "G_y img_unit 1 1 = Inr (I64 1)"
    by (simp_all add: G_x_def G_y_def getitem_def norm_index_def mul_r_def add_r_def
        prewitt_x_def prewitt_y_def img_unit_def numeral_eq_Suc)
  moreover have "round_f 2 = Finite 2"
    using round_f_of_int [of 2] by simp
  ultimately show ?thesis
    by (simp add: G_mag_def np_sqrt_def round_f_sqrt_2 sqrt2_double_def)
qed

lemma prewitt_operator_img_unit:
  "prewitt_operator blur img_unit sqrt2_double False =
     Inr \<lparr>nrows = 3, ncols = 3,
          cells = [[F64 (Finite 0), F64 (Finite 0), F64 (Finite 0)],
                   [F64 (Finite 0), F64 (Finite sqrt2_double), F64 (Finite 0)],
                   [F64 (Finite 0), F64 (Finite 0), F64 (Finite 0)]]\<rparr>"
proof -
  have "pixel_body img_unit sqrt2_double 1 1 (np_zeros 3 3) =
      Inr \<lparr>nrows = 3, ncols = 3,
          cells = [[F64 (Finite 0), F64 (Finite 0), F64 (Finite 0)],
                   [F64 (Finite 0), F64 (Finite sqrt2_double), F64 (Finite 0)],
                   [F64 (Finite 0), F64 (Finite 0), F64 (Finite 0)]]\<rparr>"
    by (simp add: pixel_body_def G_mag_img_unit setitem_def norm_index_def np_zeros_def
        numeral_eq_Suc)
  moreover have "nrows img_unit = 3" "ncols img_unit = 3"
    by (simp_all add: img_unit_def)
  ultimately show ?thesis
    by (simp add: prewitt_operator_def py_range_def upto.simps)
qed

lemma spec_Gmag_img_unit: "spec_Gmag img_unit 1 1 = sqrt 2" "sqrt 2 < sqrt2_double"
proof -
  have "spec_conv3 prewitt_x img_unit 1 1 = 1" "spec_conv3 prewitt_y img_unit 1 1 = 1"
    by (simp_all add: spec_conv3_def prewitt_x_def prewitt_y_def cell_def img_unit_def upt_rec
        numeral_eq_Suc)
  then show "spec_Gmag img_unit 1 1 = sqrt 2"
    by (simp add: spec_Gmag_def)
  show "sqrt 2 < sqrt2_double"
    unfolding sqrt2_double_def by (rule real_less_lsqrt) (simp_all add: power2_eq_square)
qed

section \<open>The claims\<close>

text \<open>
  Where smoothing is on, the theorems below assume \<open>smoothing_ok\<close>: the library's blur
  returns a grid of the shape of its argument. With smoothing off nothing is assumed.
\<close>

subsection \<open>C1: interior pixels hold the thresholded gradient magnitude\<close>

text \<open>
  Claim C1 says that, without smoothing, the output at every interior position of every
  grid is \<open>Gmag = sqrt (Gx\<^sup>2 + Gy\<^sup>2)\<close>, replaced by 0 when \<open>Gmag < t\<close>, for the row-major sums
  \<open>Gx\<close> and \<open>Gy\<close>. The loop body computes in the type of the samples and stores a double.
  On \<open>img_2p32\<close>, a grid of 64-bit integers whose first row is \<open>2\<^sup>3\<^sup>2\<close>, the code's \<open>G_x\<close> is
  \<open>3 * 2\<^sup>3\<^sup>2\<close>, its square wraps around to 0, and at threshold 0 the centre of the output is
  0, where the claim's value is 12884901888. On \<open>img_unit\<close>, where both sums are 1, with the
  threshold the double nearest to the square root of 2, the code compares that double
  with itself and keeps it, where the claim's value is 0, the square root of 2 being
  below the threshold.
\<close>

theorem computed_magnitude_differs:
  "prewitt_operator halve img_2p32 0 False =
     Inr \<lparr>nrows = 3, ncols = 3,
          cells = [[F64 (Finite 0), F64 (Finite 0), F64 (Finite 0)],
                   [F64 (Finite 0), F64 (Finite 0), F64 (Finite 0)],
                   [F64 (Finite 0), F64 (Finite 0), F64 (Finite 0)]]\<rparr> \<and>
   G_x img_2p32 1 1 = Inr (I64 12884901888) \<and>
   (let Gx = spec_conv3 prewitt_x img_2p32 1 1;
        Gy = spec_conv3 prewitt_y img_2p32 1 1;
        Gmag = sqrt (Gx ^ 2 + Gy ^ 2)
    in if Gmag < 0 then 0 else Gmag) = 12884901888 \<and>
   prewitt_operator halve img_unit sqrt2_double False =
     Inr \<lparr>nrows = 3, ncols = 3,
          cells = [[F64 (Finite 0), F64 (Finite 0), F64 (Finite 0)],
                   [F64 (Finite 0), F64 (Finite sqrt2_double), F64 (Finite 0)],
                   [F64 (Finite 0), F64 (Finite 0), F64 (Finite 0)]]\<rparr> \<and>
   (let Gx = spec_conv3 prewitt_x img_unit 1 1;
        Gy = spec_conv3 prewitt_y img_unit 1 1;
        Gmag = sqrt (Gx ^ 2 + Gy ^ 2)
    in if Gmag < sqrt2_double then 0 else Gmag) = 0 \<and>
   0 < sqrt2_double"
proof -
  have "(let Gx = spec_conv3 prewitt_x img_2p32 1 1;
        Gy = spec_conv3 prewitt_y img_2p32 1 1;
        Gmag = sqrt (Gx ^ 2 + Gy ^ 2)
    in if Gmag < 0 then 0 else Gmag) = 12884901888"
    using spec_Gmag_img_2p32 by (simp add: spec_Gmag_def Let_def del: real_sqrt_lt_0_iff)
  moreover have "(let Gx = spec_conv3 prewitt_x img_unit 1 1;
        Gy = spec_conv3 prewitt_y img_unit 1 1;
        Gmag = sqrt (Gx ^ 2 + Gy ^ 2)
    in if Gmag < sqrt2_double then 0 else Gmag) = 0"
    using spec_Gmag_img_unit by (simp add: spec_Gmag_def Let_def)
  moreover have "0 < sqrt2_double"
    by (simp add: sqrt2_double_def)
  ultimately show ?thesis
    using prewitt_operator_img_2p32 [of halve] G_x_img_2p32 prewitt_operator_img_unit [of halve]
    by blast
qed

text \<open>
  Claim C1, amended. Without smoothing, on every grid of integer samples of magnitude at
  most \<open>2\<^sup>2\<^sup>3\<close>, of a type that the kernels promote to 64-bit integers (every image of
  8-bit or of 16-bit samples), at every interior position
  \<open>(i, j)\<close> (\<open>1 \<le> i \<le> rows - 2\<close>, \<open>1 \<le> j \<le> cols - 2\<close>) and for every threshold \<open>t\<close>, the call
  returns a grid whose entry at \<open>(i, j)\<close> is \<open>Gmag\<close>, the double nearest to
  \<open>sqrt (Gx\<^sup>2 + Gy\<^sup>2)\<close>, replaced by 0 when \<open>Gmag < t\<close>; \<open>Gx\<close> and \<open>Gy\<close> are the exact
  row-major sums of the kernels \<open>prewitt_x\<close> and \<open>prewitt_y\<close> against the neighbourhood.
\<close>

theorem interior_pixel_is_thresholded_magnitude:
  assumes "small_int_grid img"
    and "1 \<le> i" "i \<le> int (nrows img) - 2" "1 \<le> j" "j \<le> int (ncols img) - 2"
  shows "\<exists>out. prewitt_operator GaussianBlur img t False = Inr out \<and>
           getitem out i j =
             Inr (F64 (let Gx = spec_conv3 prewitt_x img i j;
                           Gy = spec_conv3 prewitt_y img i j;
                           Gmag = round_f (sqrt (Gx ^ 2 + Gy ^ 2))
                       in if flt Gmag t then Finite 0 else Gmag))"
proof -
  have int: "interior img i j"
    using assms(2-5) by (simp add: interior_def)
  then have grid: "in_grid img i j"
    by (rule interior_neighbours)
  have run: "prewitt_operator GaussianBlur img t False = Inr (edge_map img t)"
    using prewitt_operator_edge_map [of GaussianBlur img False t]
    by (simp add: smoothing_ok_def loop_image_def)
  have "getitem (edge_map img t) i j = Inr (edge_pixel img t i j)"
    using int grid by (simp add: getitem_edge_map)
  moreover have "magnitude img i j = round_f (spec_Gmag img i j)"
    using assms(1) int by (rule magnitude_small_int)
  ultimately show ?thesis
    using run by (simp add: edge_pixel_def spec_Gmag_def Let_def)
qed

text \<open>At the centre of \<open>img345\<close> the gradients are 3 and 4, and the threshold 1 keeps 5.\<close>

theorem interior_pixel_is_thresholded_magnitude_witness:
  "\<exists>out. prewitt_operator halve img345 1 False = Inr out \<and>
     getitem out 1 1 = Inr (F64 (Finite 5))"
proof -
  have small: "small_int_grid img345"
    by (simp add: small_int_grid_def wf_ndarray_def img345_def)
  have "spec_conv3 prewitt_x img345 1 1 = 3" "spec_conv3 prewitt_y img345 1 1 = 4"
    by (simp_all add: spec_conv3_def prewitt_x_def prewitt_y_def cell_def img345_def upt_rec)
  with interior_pixel_is_thresholded_magnitude [OF small, of 1 1 halve 1] show ?thesis
    by (simp add: img345_def sqrt_25 round_f_5)
qed

subsection \<open>C2: a negative threshold\<close>

text \<open>
  Claim C2 says that a negative threshold makes the call raise an error before any pixel
  is processed. The function never inspects the threshold except in the comparison
  \<^verbatim>\<open>G_mag < threshold\<close>: with threshold \<open>-1\<close> the call on \<open>img345\<close> returns a grid, and the
  centre pixel has been computed.
\<close>

theorem negative_threshold_returns:
  "prewitt_operator halve img345 (- 1) False =
     Inr \<lparr>nrows = 3, ncols = 3,
          cells = [[F64 (Finite 0), F64 (Finite 0), F64 (Finite 0)],
                   [F64 (Finite 0), F64 (Finite 5), F64 (Finite 0)],
                   [F64 (Finite 0), F64 (Finite 0), F64 (Finite 0)]]\<rparr> \<and>
   \<not> isl (prewitt_operator halve img345 (- 1) False)"
  by (simp add: prewitt_operator_def py_range_def upto.simps pixel_body_def G_mag_def G_x_def
      G_y_def getitem_def setitem_def norm_index_def mul_r_def add_r_def prewitt_x_def
      prewitt_y_def np_zeros_def img345_def np_sqrt_def round_f_25 round_f_5 sqrt_25
      numeral_eq_Suc)

text \<open>
  Claim C2, amended. A negative threshold is not rejected: the call behaves exactly as
  with threshold 0, and returns a grid in which every interior pixel holds its
  unsuppressed magnitude.
\<close>

theorem negative_threshold_as_zero:
  assumes "t < 0" "smoothing_ok GaussianBlur img smooth"
  shows "prewitt_operator GaussianBlur img t smooth = prewitt_operator GaussianBlur img 0 smooth \<and>
         (\<exists>out. prewitt_operator GaussianBlur img t smooth = Inr out \<and>
            (\<forall>i j. interior img i j \<longrightarrow>
               getitem out i j = map_sum id F64 (G_mag (loop_image GaussianBlur img smooth) i j)))"
proof -
  let ?src = "loop_image GaussianBlur img smooth"
  have "pixel_body a t = pixel_body a 0" for a
    using assms(1) by (intro ext) (rule pixel_body_negative_threshold)
  then have same: "prewitt_operator GaussianBlur img t smooth =
      prewitt_operator GaussianBlur img 0 smooth"
    by (simp add: prewitt_operator_def split: sum.splits)
  have run: "prewitt_operator GaussianBlur img t smooth = Inr (edge_map ?src t)"
    using assms(2) by (rule prewitt_operator_edge_map)
  have "getitem (edge_map ?src t) i j = map_sum id F64 (G_mag ?src i j)"
    if "interior img i j" for i j
  proof -
    from that assms(2) have int: "interior ?src i j"
      by (simp add: interior_loop_image)
    then have "in_grid ?src i j"
      by (rule interior_neighbours)
    moreover have "edge_pixel ?src t i j = F64 (magnitude ?src i j)"
      using assms(1) magnitude_nonneg [of ?src i j] by (simp add: edge_pixel_def nonneg_not_flt)
    ultimately show ?thesis
      using int by (simp add: getitem_edge_map G_mag_interior)
  qed
  with run have "\<exists>out. prewitt_operator GaussianBlur img t smooth = Inr out \<and>
      (\<forall>i j. interior img i j \<longrightarrow> getitem out i j = map_sum id F64 (G_mag ?src i j))"
    by blast
  with same show ?thesis by blast
qed

theorem negative_threshold_as_zero_witness:
  "prewitt_operator halve img345 (- 1) True = prewitt_operator halve img345 0 True \<and>
   (\<exists>out. prewitt_operator halve img345 (- 1) True = Inr out \<and>
      getitem out 1 1 = map_sum id F64 (G_mag (loop_image halve img345 True) 1 1))"
proof -
  have neg: "(- 1 :: real) < 0"
    by simp
  have "interior img345 1 1"
    by (simp add: interior_def img345_def)
  with negative_threshold_as_zero [OF neg smoothing_ok_halve] show ?thesis
    by blast
qed

subsection \<open>C3: the border is zero\<close>

text \<open>
  Claim C3. For every threshold and either smoothing setting, the call returns a grid
  whose entries in row 0, row \<open>rows - 1\<close>, column 0 and column \<open>cols - 1\<close> are all 0.
\<close>

theorem border_is_zero:
  assumes "smoothing_ok GaussianBlur img smooth"
  shows "\<exists>out. prewitt_operator GaussianBlur img t smooth = Inr out \<and>
           (\<forall>i j. border img i j \<longrightarrow> getitem out i j = Inr (F64 (Finite 0)))"
proof -
  let ?src = "loop_image GaussianBlur img smooth"
  have "getitem (edge_map ?src t) i j = Inr (F64 (Finite 0))" if "border img i j" for i j
  proof -
    from that have "in_grid img i j" and "\<not> interior img i j"
      by (auto simp: border_def interior_def)
    with assms have "in_grid ?src i j" and "\<not> interior ?src i j"
      by (simp_all add: in_grid_loop_image interior_loop_image)
    then show ?thesis
      by (simp add: getitem_edge_map)
  qed
  with prewitt_operator_edge_map [OF assms, of t] show ?thesis by simp
qed

theorem border_is_zero_witness:
  "\<exists>out. prewitt_operator halve img345 0 True = Inr out \<and>
     getitem out 0 0 = Inr (F64 (Finite 0)) \<and> getitem out 0 1 = Inr (F64 (Finite 0)) \<and>
     getitem out 1 2 = Inr (F64 (Finite 0)) \<and> getitem out 2 1 = Inr (F64 (Finite 0)) \<and>
     getitem out 1 0 = Inr (F64 (Finite 0))"
proof -
  from border_is_zero [where img = img345 and smooth = True and t = 0, OF smoothing_ok_halve] obtain out where
    out: "prewitt_operator halve img345 0 True = Inr out"
      "\<And>i j. border img345 i j \<Longrightarrow> getitem out i j = Inr (F64 (Finite 0))"
    by blast
  have "border img345 0 0" "border img345 0 1" "border img345 1 2" "border img345 2 1"
    "border img345 1 0"
    by (simp_all add: border_def in_grid_def img345_def)
  with out show ?thesis by simp
qed

subsection \<open>C4: grids with no interior\<close>

text \<open>
  Claim C4. On a grid with fewer than three rows or fewer than three columns the call
  raises nothing and returns the all-zero grid of the input's own shape, for every
  threshold and either smoothing setting (with smoothing on, provided the blur itself
  returns; its result is never read).
\<close>

theorem small_grid_all_zero:
  assumes "nrows img < 3 \<or> ncols img < 3"
    and "smooth \<longrightarrow> (\<exists>b. GaussianBlur img = Inr b)"
  shows "prewitt_operator GaussianBlur img t smooth = Inr (np_zeros (nrows img) (ncols img))"
proof -
  obtain src where src: "(if smooth then GaussianBlur img else Inr img) = Inr src"
    using assms(2) by (cases smooth) auto
  have "for_loop (py_range 1 (int (nrows img) - 1))
          (\<lambda>i. for_loop (py_range 1 (int (ncols img) - 1)) (\<lambda>j. pixel_body src t i j))
          (np_zeros (nrows img) (ncols img)) = Inr (np_zeros (nrows img) (ncols img))"
  proof (cases "nrows img < 3")
    case True
    then have "py_range 1 (int (nrows img) - 1) = []"
      by (simp add: py_range_def)
    then show ?thesis by simp
  next
    case False
    with assms(1) have "py_range 1 (int (ncols img) - 1) = []"
      by (simp add: py_range_def)
    then show ?thesis
      by (simp add: for_loop_no_inner)
  qed
  with src show ?thesis
    by (simp add: prewitt_operator_def)
qed

text \<open>The 2 by 2 grid, with the default threshold 40 and smoothing on.\<close>

theorem small_grid_all_zero_witness:
  "prewitt_operator halve img2x2 40 True =
     Inr \<lparr>nrows = 2, ncols = 2,
          cells = [[F64 (Finite 0), F64 (Finite 0)], [F64 (Finite 0), F64 (Finite 0)]]\<rparr>"
  using small_grid_all_zero [of img2x2 True halve 40]
  by (simp add: img2x2_def halve_def np_zeros_def numeral_eq_Suc)

subsection \<open>C5: raising the threshold only removes pixels\<close>

text \<open>
  Claim C5. For a fixed grid and smoothing setting and thresholds \<open>t1 \<le> t2\<close>, every
  position whose output is 0 at threshold \<open>t1\<close> has output 0 at threshold \<open>t2\<close>.
\<close>

theorem threshold_monotone:
  assumes "t1 \<le> t2" "smoothing_ok GaussianBlur img smooth"
  shows "\<exists>out1 out2.
           prewitt_operator GaussianBlur img t1 smooth = Inr out1 \<and>
           prewitt_operator GaussianBlur img t2 smooth = Inr out2 \<and>
           (\<forall>i j. in_grid img i j \<and> getitem out1 i j = Inr (F64 (Finite 0)) \<longrightarrow>
                  getitem out2 i j = Inr (F64 (Finite 0)))"
proof -
  let ?src = "loop_image GaussianBlur img smooth"
  have "getitem (edge_map ?src t2) i j = Inr (F64 (Finite 0))"
    if "in_grid img i j" "getitem (edge_map ?src t1) i j = Inr (F64 (Finite 0))" for i j
  proof -
    from that(1) assms(2) have grid: "in_grid ?src i j"
      by (simp add: in_grid_loop_image)
    show ?thesis
    proof (cases "interior ?src i j")
      case False
      with grid show ?thesis by (simp add: getitem_edge_map)
    next
      case True
      with grid that(2) have "edge_pixel ?src t1 i j = F64 (Finite 0)"
        by (simp add: getitem_edge_map)
      then have "edge_pixel ?src t2 i j = F64 (Finite 0)"
        using assms(1) flt_mono [of "magnitude ?src i j" t1 t2]
        by (auto simp: edge_pixel_def split: if_splits)
      with grid True show ?thesis by (simp add: getitem_edge_map)
    qed
  qed
  with prewitt_operator_edge_map [OF assms(2), of t1] prewitt_operator_edge_map [OF assms(2), of t2]
  show ?thesis by simp
qed

text \<open>The centre of \<open>img345\<close> (magnitude 5) is suppressed at threshold 6, hence at 7.\<close>

theorem threshold_monotone_witness:
  "\<exists>out1 out2.
     prewitt_operator halve img345 6 False = Inr out1 \<and>
     prewitt_operator halve img345 7 False = Inr out2 \<and>
     getitem out1 1 1 = Inr (F64 (Finite 0)) \<and> getitem out2 1 1 = Inr (F64 (Finite 0))"
proof -
  have le: "(6 :: real) \<le> 7"
    by simp
  from threshold_monotone [where img = img345 and smooth = False, OF le smoothing_ok_halve]
  obtain out1 out2 where
    run1: "prewitt_operator halve img345 6 False = Inr out1" and
    run2: "prewitt_operator halve img345 7 False = Inr out2" and
    mono: "\<And>i j. in_grid img345 i j \<Longrightarrow> getitem out1 i j = Inr (F64 (Finite 0)) \<Longrightarrow>
             getitem out2 i j = Inr (F64 (Finite 0))"
    by blast
  have grid: "in_grid img345 1 1"
    by (simp add: in_grid_def img345_def)
  have zero1: "getitem out1 1 1 = Inr (F64 (Finite 0))"
    using run1 by (auto simp: prewitt_operator_img345 getitem_centre)
  from mono [OF grid zero1] run1 run2 zero1 show ?thesis
    by blast
qed

subsection \<open>C6: the comparison with the threshold is strict\<close>

text \<open>
  Claim C6. At every interior position, with \<open>g\<close> the magnitude the code computes there:
  the output is 0 when \<open>g < t\<close> and is \<open>g\<close> otherwise; so a magnitude equal to the threshold
  is kept, and threshold 0 suppresses nothing.
\<close>

theorem threshold_comparison_strict:
  assumes "interior img i j" "smoothing_ok GaussianBlur img smooth"
  shows "\<exists>out g.
           prewitt_operator GaussianBlur img t smooth = Inr out \<and>
           G_mag (loop_image GaussianBlur img smooth) i j = Inr g \<and>
           (flt g t \<longrightarrow> getitem out i j = Inr (F64 (Finite 0))) \<and>
           (\<not> flt g t \<longrightarrow> getitem out i j = Inr (F64 g)) \<and>
           (g = Finite t \<longrightarrow> getitem out i j = Inr (F64 g)) \<and>
           (t = 0 \<longrightarrow> getitem out i j = Inr (F64 g))"
proof -
  let ?src = "loop_image GaussianBlur img smooth"
  let ?g = "magnitude ?src i j"
  from assms have int: "interior ?src i j"
    by (simp add: interior_loop_image)
  then have grid: "in_grid ?src i j"
    by (rule interior_neighbours)
  have run: "prewitt_operator GaussianBlur img t smooth = Inr (edge_map ?src t)"
    using assms(2) by (rule prewitt_operator_edge_map)
  have mag: "G_mag ?src i j = Inr ?g"
    using int by (rule G_mag_interior)
  have px: "getitem (edge_map ?src t) i j = Inr (F64 (if flt ?g t then Finite 0 else ?g))"
    using int grid by (simp add: getitem_edge_map edge_pixel_def)
  have "nonneg_f ?g"
    by (rule magnitude_nonneg)
  then have "t = 0 \<longrightarrow> \<not> flt ?g t"
    by (simp add: nonneg_not_flt)
  with px have "(flt ?g t \<longrightarrow> getitem (edge_map ?src t) i j = Inr (F64 (Finite 0))) \<and>
      (\<not> flt ?g t \<longrightarrow> getitem (edge_map ?src t) i j = Inr (F64 ?g)) \<and>
      (?g = Finite t \<longrightarrow> getitem (edge_map ?src t) i j = Inr (F64 ?g)) \<and>
      (t = 0 \<longrightarrow> getitem (edge_map ?src t) i j = Inr (F64 ?g))"
    by auto
  with run mag show ?thesis
    by blast
qed

text \<open>The centre of \<open>img345\<close> has magnitude 5; threshold 5 keeps it.\<close>

theorem threshold_comparison_strict_witness:
  "\<exists>out. prewitt_operator halve img345 5 False = Inr out \<and>
     G_mag img345 1 1 = Inr (Finite 5) \<and> getitem out 1 1 = Inr (F64 (Finite 5))"
proof -
  have int: "interior img345 1 1"
    by (simp add: interior_def img345_def)
  from threshold_comparison_strict [where smooth = False and t = 5, OF int smoothing_ok_halve]
  obtain out g where
    run: "prewitt_operator halve img345 5 False = Inr out" and
    mag: "G_mag (loop_image halve img345 False) 1 1 = Inr g" and
    eq: "g = Finite 5 \<longrightarrow> getitem out 1 1 = Inr (F64 g)"
    by blast
  from mag have "g = Finite 5"
    by (simp add: loop_image_def G_mag_img345)
  with run eq show ?thesis
    by (simp add: G_mag_img345)
qed

subsection \<open>C7: the output has the shape of the input\<close>

text \<open>
  Claim C7. For every threshold and either smoothing setting, the returned grid has as
  many rows and as many columns as the input (and its rows are that many and that long).
\<close>

theorem output_has_input_shape:
  assumes "smoothing_ok GaussianBlur img smooth"
  shows "\<exists>out. prewitt_operator GaussianBlur img t smooth = Inr out \<and>
           nrows out = nrows img \<and> ncols out = ncols img \<and> wf_ndarray out"
proof -
  let ?src = "loop_image GaussianBlur img smooth"
  have "nrows (edge_map ?src t) = nrows img" "ncols (edge_map ?src t) = ncols img"
    using assms by (simp_all add: shape_edge_map shape_loop_image)
  moreover have "wf_ndarray (edge_map ?src t)"
    by (simp add: edge_map_def wf_tabulate)
  ultimately show ?thesis
    using prewitt_operator_edge_map [OF assms, of t] by simp
qed

theorem output_has_input_shape_witness:
  "\<exists>out. prewitt_operator halve img345 40 True = Inr out \<and>
     nrows out = 3 \<and> ncols out = 3 \<and> wf_ndarray out"
  using output_has_input_shape [where img = img345 and smooth = True and t = 40, OF smoothing_ok_halve]
  by (simp add: img345_def)

subsection \<open>C8: a uniform image has no edges\<close>

text \<open>
  Claim C8 says that on every uniform grid both sums are 0 at every interior position and
  the output is all zero. On \<open>flat_tenth\<close>, the uniform grid of doubles nearest to one
  tenth, the code adds the nine terms of \<open>G_y\<close> from left to right with rounding: the sum
  of the first three is rounded up, the result is \<open>2\<^sup>-\<^sup>5\<^sup>5\<close>, and it is the centre of the output
  at threshold 0.
\<close>

theorem uniform_doubles_not_zero:
  "wf_ndarray flat_tenth \<and> uniform flat_tenth tenth \<and>
   G_y flat_tenth 1 1 = Inr (F64 (Finite (1 / 2 ^ 55))) \<and>
   F64 (Finite (1 / 2 ^ 55)) \<noteq> F64 (Finite 0) \<and>
   prewitt_operator halve flat_tenth 0 False =
     Inr \<lparr>nrows = 3, ncols = 3,
          cells = [[F64 (Finite 0), F64 (Finite 0), F64 (Finite 0)],
                   [F64 (Finite 0), F64 (Finite (1 / 2 ^ 55)), F64 (Finite 0)],
                   [F64 (Finite 0), F64 (Finite 0), F64 (Finite 0)]]\<rparr>"
proof -
  have "wf_ndarray flat_tenth" "uniform flat_tenth tenth"
    by (simp_all add: wf_ndarray_def uniform_def flat_tenth_def)
  moreover have "F64 (Finite (1 / 2 ^ 55)) \<noteq> F64 (Finite 0)"
    by simp
  ultimately show ?thesis
    using flat_tenth_sums(2) prewitt_operator_flat_tenth [of halve] by blast
qed

text \<open>
  Claim C8, amended. On a uniform grid of integer samples, of a type that the kernels
  promote to 64-bit integers (every 8-bit image), both sums \<open>G_x\<close> and \<open>G_y\<close> are 0 at
  every interior position and the call returns the all-zero grid, for every threshold
  (so for every \<open>t \<ge> 0\<close>). With smoothing on, the loops read the blurred image: the blur is
  then assumed to return a well-formed uniform grid of integers, as a normalised blur of
  a uniform 8-bit image is.
\<close>

theorem uniform_image_all_zero:
  assumes "wf_ndarray img" "uniform img (I64 c)" "smoothing_ok GaussianBlur img smooth"
    and "smooth \<longrightarrow> wf_ndarray (loop_image GaussianBlur img smooth) \<and>
           (\<exists>c'. uniform (loop_image GaussianBlur img smooth) (I64 c'))"
  shows "(\<forall>i j. interior img i j \<longrightarrow>
            G_x (loop_image GaussianBlur img smooth) i j = Inr (I64 0) \<and>
            G_y (loop_image GaussianBlur img smooth) i j = Inr (I64 0)) \<and>
         prewitt_operator GaussianBlur img t smooth = Inr (np_zeros (nrows img) (ncols img))"
proof -
  let ?src = "loop_image GaussianBlur img smooth"
  obtain c' where src: "wf_ndarray ?src" "uniform ?src (I64 c')"
    using assms(1,2,4) by (cases smooth) (auto simp: loop_image_def)
  have grad: "G_x ?src i j = Inr (I64 0) \<and> G_y ?src i j = Inr (I64 0)" if "interior ?src i j" for i j
    using that by (simp add: G_x_transposed G_y_transposed uniform_int_sums [OF src])
  have "edge_pixel ?src t a b = F64 (Finite 0)" if "interior ?src a b" for a b
    using that by (simp add: edge_pixel_def magnitude_uniform_int [OF src])
  then have "edge_map ?src t = np_zeros (nrows ?src) (ncols ?src)"
    by (rule edge_map_zero)
  then have "prewitt_operator GaussianBlur img t smooth = Inr (np_zeros (nrows img) (ncols img))"
    using assms(3) by (simp add: prewitt_operator_edge_map shape_loop_image)
  with grad assms(3) show ?thesis
    by (simp add: interior_loop_image)
qed

text \<open>The flat image of sevens, smoothed by \<open>halve\<close> into a flat image, threshold 40.\<close>

theorem uniform_image_all_zero_witness:
  "G_x (loop_image halve flat7 True) 1 1 = Inr (I64 0) \<and>
   G_y (loop_image halve flat7 True) 1 1 = Inr (I64 0) \<and>
   prewitt_operator halve flat7 40 True =
     Inr \<lparr>nrows = 3, ncols = 3,
          cells = [[F64 (Finite 0), F64 (Finite 0), F64 (Finite 0)],
                   [F64 (Finite 0), F64 (Finite 0), F64 (Finite 0)],
                   [F64 (Finite 0), F64 (Finite 0), F64 (Finite 0)]]\<rparr>"
proof -
  have wf: "wf_ndarray flat7" and un: "uniform flat7 (I64 7)"
    by (simp_all add: wf_ndarray_def uniform_def flat7_def)
  have "wf_ndarray (loop_image halve flat7 True)" "uniform (loop_image halve flat7 True) (I64 3)"
    by (simp_all add: wf_ndarray_def uniform_def flat7_def loop_image_def halve_def)
  then have blurred: "True \<longrightarrow> wf_ndarray (loop_image halve flat7 True) \<and>
      (\<exists>c'. uniform (loop_image halve flat7 True) (I64 c'))"
    by blast
  have int: "interior flat7 1 1"
    by (simp add: interior_def flat7_def)
  from uniform_image_all_zero [where t = 40, OF wf un smoothing_ok_halve blurred] int show ?thesis
    by (simp add: np_zeros_def flat7_def numeral_eq_Suc)
qed

subsection \<open>C9: the neighbourhood is read transposed\<close>

text \<open>
  Claim C9 says that for every input the code's \<open>G_x\<close> equals the row-major sum of
  \<open>prewitt_y\<close> and its \<open>G_y\<close> that of \<open>prewitt_x\<close>. The code adds the transposed terms from
  left to right, and on doubles the order of the additions changes the rounded sum: on
  \<open>flat_tenth\<close> the code's \<open>G_y\<close> is \<open>2\<^sup>-\<^sup>5\<^sup>5\<close> and the row-major sum of \<open>prewitt_x\<close> is 0, whether
  computed in doubles or exactly; and the code's \<open>G_x\<close> is 0 where the row-major sum of
  \<open>prewitt_y\<close> in doubles is \<open>2\<^sup>-\<^sup>5\<^sup>5\<close>.
\<close>

theorem double_sums_depend_on_order:
  "G_y flat_tenth 1 1 = Inr (F64 (Finite (1 / 2 ^ 55))) \<and>
   rowmajor_conv3 prewitt_x flat_tenth 1 1 = F64 (Finite 0) \<and>
   spec_conv3 prewitt_x flat_tenth 1 1 = 0 \<and>
   G_x flat_tenth 1 1 = Inr (F64 (Finite 0)) \<and>
   rowmajor_conv3 prewitt_y flat_tenth 1 1 = F64 (Finite (1 / 2 ^ 55))"
proof -
  have "spec_conv3 prewitt_x flat_tenth 1 1 = 0"
    by (simp add: spec_conv3_def prewitt_x_def cell_def flat_tenth_def tenth_def upt_rec)
  then show ?thesis
    using flat_tenth_sums by blast
qed

text \<open>
  Claim C9, amended. At every interior position of every grid the code's \<open>G_x\<close> is the
  sum, from left to right, of the entries of \<open>prewitt_x\<close> against the transposed
  neighbourhood, its \<open>G_y\<close> that of \<open>prewitt_y\<close>, and \<open>prewitt_y\<close> is the transpose of
  \<open>prewitt_x\<close>. On a grid of integer samples of a type that the kernels promote to 64-bit
  integers, where the sums do not depend on the order of their terms, the code's \<open>G_x\<close> is the row-major sum of \<open>prewitt_y\<close>, its \<open>G_y\<close> the
  row-major sum of \<open>prewitt_x\<close> (the two components are swapped), and the magnitude is
  that of the row-major sums.
\<close>

theorem gradient_components_swapped:
  assumes "interior img i j"
  shows "G_x img i j = Inr (transposed_conv3 prewitt_x img i j) \<and>
         G_y img i j = Inr (transposed_conv3 prewitt_y img i j) \<and>
         transpose prewitt_x = prewitt_y \<and>
         (int_grid img \<longrightarrow>
            G_x img i j = Inr (rowmajor_conv3 prewitt_y img i j) \<and>
            G_y img i j = Inr (rowmajor_conv3 prewitt_x img i j) \<and>
            G_mag img i j =
              Inr (np_sqrt (sadd (spow2 (rowmajor_conv3 prewitt_x img i j))
                                 (spow2 (rowmajor_conv3 prewitt_y img i j)))))"
proof -
  have "transpose prewitt_x = prewitt_y"
    by (simp add: prewitt_x_def prewitt_y_def transpose.simps)
  moreover have "G_mag img i j =
      Inr (np_sqrt (sadd (spow2 (rowmajor_conv3 prewitt_x img i j))
                         (spow2 (rowmajor_conv3 prewitt_y img i j))))"
    if "int_grid img"
    using assms conv3_int_grid [OF that assms]
    by (simp add: G_mag_interior magnitude_def)
  ultimately show ?thesis
    using assms conv3_int_grid(1,2) [OF _ assms]
    by (simp add: G_x_transposed G_y_transposed)
qed

text \<open>
  At the centre of \<open>img345\<close> the row-major sums are 3 for \<open>prewitt_x\<close> and 4 for \<open>prewitt_y\<close>;
  the code's \<open>G_x\<close> is 4 and its \<open>G_y\<close> is 3.
\<close>

theorem gradient_components_swapped_witness:
  "G_x img345 1 1 = Inr (I64 4) \<and> rowmajor_conv3 prewitt_y img345 1 1 = I64 4 \<and>
   G_y img345 1 1 = Inr (I64 3) \<and> rowmajor_conv3 prewitt_x img345 1 1 = I64 3 \<and>
   G_mag img345 1 1 = Inr (Finite 5)"
proof -
  have int: "interior img345 1 1"
    by (simp add: interior_def img345_def)
  have ig: "int_grid img345"
    by (simp add: int_grid_def wf_ndarray_def img345_def)
  have cx: "rowmajor_conv3 prewitt_x img345 1 1 = I64 3"
    and cy: "rowmajor_conv3 prewitt_y img345 1 1 = I64 4"
    by (simp_all add: rowmajor_conv3_def prewitt_x_def prewitt_y_def cell_def img345_def upt_rec)
  from gradient_components_swapped [OF int] ig show ?thesis
    by (simp add: cx cy G_x_img345 G_y_img345 G_mag_img345)
qed

subsection \<open>C10: the input is not written, and equal inputs give equal outputs\<close>

text \<open>
  Claim C10. In the store-passing function, a call on a reference \<open>img\<close> returns a
  reference to a new object and a store in which every object that existed before the
  call, the input among them, is what it was; and two calls, in any two stores, on inputs
  with equal contents and with equal configurations return grids with equal contents,
  namely the grid the value-passing function returns.
\<close>

theorem input_unchanged_and_deterministic:
  assumes "img1 < length h1" "img2 < length h2" "h1 ! img1 = h2 ! img2"
    and "smoothing_ok GaussianBlur (h1 ! img1) smooth"
  shows "\<exists>e1 h1' e2 h2'.
           prewitt_operator_st GaussianBlur img1 t smooth h1 = Inr (e1, h1') \<and>
           prewitt_operator_st GaussianBlur img2 t smooth h2 = Inr (e2, h2') \<and>
           h1' ! img1 = h1 ! img1 \<and> take (length h1) h1' = h1 \<and>
           h2' ! img2 = h2 ! img2 \<and> take (length h2) h2' = h2 \<and>
           length h1 \<le> e1 \<and> e1 < length h1' \<and>
           h1' ! e1 = h2' ! e2 \<and>
           prewitt_operator GaussianBlur (h1 ! img1) t smooth = Inr (h1' ! e1)"
proof -
  let ?E = "edge_map (loop_image GaussianBlur (h1 ! img1) smooth) t"
  let ?tl = "?E # (if smooth then [loop_image GaussianBlur (h1 ! img1) smooth] else [])"
  have run1: "prewitt_operator_st GaussianBlur img1 t smooth h1 = Inr (length h1, h1 @ ?tl)"
    using assms(1,4) by (rule prewitt_operator_st_run)
  have run2: "prewitt_operator_st GaussianBlur img2 t smooth h2 = Inr (length h2, h2 @ ?tl)"
    using prewitt_operator_st_run [of img2 h2 GaussianBlur smooth t] assms(2,3,4) by simp
  have val: "prewitt_operator GaussianBlur (h1 ! img1) t smooth = Inr ?E"
    using assms(4) by (rule prewitt_operator_edge_map)
  show ?thesis
    unfolding run1 run2 val using assms(1,2)
    by (simp add: nth_append)
qed

text \<open>Two stores holding \<open>img345\<close> at different references, smoothing on.\<close>

theorem input_unchanged_and_deterministic_witness:
  "\<exists>e1 h1' e2 h2'.
     prewitt_operator_st halve 0 5 True [img345] = Inr (e1, h1') \<and>
     prewitt_operator_st halve 1 5 True [flat7, img345] = Inr (e2, h2') \<and>
     h1' ! 0 = img345 \<and> h2' ! 1 = img345 \<and> h1' ! e1 = h2' ! e2"
proof -
  have ok: "smoothing_ok halve ([img345] ! 0) True"
    by (rule smoothing_ok_halve)
  from input_unchanged_and_deterministic
         [of 0 "[img345]" 1 "[flat7, img345]" halve True 5, OF _ _ _ ok]
  show ?thesis
    by simp blast
qed
end
